theory Spec2Isabelle
  imports Complex_Main
begin

section \<open>Numbers and vectors\<close>

text \<open>
  The two components are \<^verbatim>\<open>canvas_html.vue\<close>, the raster compositor, and
  \<^verbatim>\<open>canvas_webgl.vue\<close>, the field renderer. A JavaScript number is an IEEE 754 binary64
  value; the finite ones are real numbers here, and every operation of the script, in
  scene creation and in the simulation step, rounds its exact result to the nearest
  double (section below). The random draws are any numbers. The precision of the
  shader's \<^verbatim>\<open>mediump\<close> floats is left to the GPU; its arithmetic is kept exact, from the
  upload of the uniforms on, and only what does not depend on rounding is stated of it. A GLSL division whose divisor is zero has
  an unspecified result; it is the value \<open>None\<close>.
\<close>

type_synonym vec2 = "real \<times> real"
type_synonym vec3 = "real \<times> real \<times> real"

definition gl_div :: "real \<Rightarrow> real \<Rightarrow> real option" where
  "gl_div a b = (if b = 0 then None else Some (a / b))"

section \<open>Double arithmetic\<close>

text \<open>
  Rounding to the nearest integer, ties to the even one; \<open>2\<close> to an integer power; the
  exponent of the binade of a number, not below the exponent \<open>-1022\<close> of the subnormal
  numbers; rounding of a number that is not negative to the nearest multiple of the unit
  in the last place of its binade (53 significant bits), ties to the even multiple; and
  the rounding \<open>fl64\<close> of any real to the nearest double, which is symmetric in the sign.
  Overflow is not part of \<open>fl64\<close>: a result of magnitude \<open>2\<^sup>1\<^sup>0\<^sup>2\<^sup>4\<close> or more is the double
  infinity in the program and a finite number here, so the statements about steps bound
  their inputs (\<open>js_number\<close>) far below that.
\<close>

definition round_even :: "real \<Rightarrow> int" where
  "round_even q =
    (let f = \<lfloor>q\<rfloor>
     in if q - of_int f < 1 / 2 then f
        else if q - of_int f > 1 / 2 then f + 1
        else if even f then f else f + 1)"

definition pow2 :: "int \<Rightarrow> real" where
  "pow2 e = 2 powr of_int e"

definition expo64 :: "real \<Rightarrow> int" where
  "expo64 a = max \<lfloor>log 2 \<bar>a\<bar>\<rfloor> (- 1022)"

definition rn64 :: "real \<Rightarrow> real" where
  "rn64 a = (let u = pow2 (expo64 a - 52) in of_int (round_even (a / u)) * u)"

definition fl64 :: "real \<Rightarrow> real" where
  "fl64 z = sgn z * rn64 \<bar>z\<bar>"

text \<open>The JavaScript operators \<^verbatim>\<open>+\<close>, \<^verbatim>\<open>-\<close>, \<^verbatim>\<open>*\<close> and \<^verbatim>\<open>/\<close> on numbers; comparison and
  unary minus are exact. The only divisor of the program is the literal \<^verbatim>\<open>2\<close>. A literal
  such as \<^verbatim>\<open>0.1\<close> is the double \<open>fl64 0.1\<close>.\<close>

definition js_add :: "real \<Rightarrow> real \<Rightarrow> real" where
  "js_add a b = fl64 (a + b)"

definition js_sub :: "real \<Rightarrow> real \<Rightarrow> real" where
  "js_sub a b = fl64 (a - b)"

definition js_mul :: "real \<Rightarrow> real \<Rightarrow> real" where
  "js_mul a b = fl64 (a * b)"

definition js_div :: "real \<Rightarrow> real \<Rightarrow> real" where
  "js_div a b = fl64 (a / b)"

text \<open>A double of magnitude at most \<open>2\<^sup>1\<^sup>0\<^sup>0\<^sup>0\<close>: sums, differences and products by \<open>0.1\<close>
  of a few such numbers do not overflow, so \<open>fl64\<close> is the program's rounding on them.
  The multiples of the least subnormal number \<open>2\<^sup>-\<^sup>1\<^sup>0\<^sup>7\<^sup>4\<close>, which all doubles are.\<close>

definition js_number :: "real \<Rightarrow> bool" where
  "js_number x = (fl64 x = x \<and> \<bar>x\<bar> \<le> 2 ^ 1000)"

definition on_grid :: "real \<Rightarrow> bool" where
  "on_grid z = (\<exists>k :: int. z = of_int k * pow2 (- 1074))"

section \<open>Blob kinematics of the raster compositor\<close>

text \<open>
  \<^verbatim>\<open>class Circle\<close> of \<^verbatim>\<open>canvas_html.vue\<close>. The fields \<open>x\<close>, \<open>y\<close>, \<open>radius\<close>,
  \<open>color\<close>, \<open>velocity\<close>, \<open>isInteractive\<close> carry the prefix \<open>c_\<close>; \<open>velocity\<close> is the
  object \<open>{x, y}\<close>, a pair here.
\<close>

record Circle =
  c_x :: real
  c_y :: real
  c_radius :: real
  c_color :: string
  c_velocity :: vec2
  c_isInteractive :: bool

text \<open>\<^verbatim>\<open>Circle.update\<close>: the add, then the four boundary tests in the order of the source,
  each sum and difference rounded. \<open>width\<close> and \<open>height\<close> are the variables of the
  enclosing closure.\<close>

definition Circle_update :: "real \<Rightarrow> real \<Rightarrow> Circle \<Rightarrow> Circle" where
  "Circle_update width height this =
    (let this = this\<lparr>c_x := js_add (c_x this) (fst (c_velocity this))\<rparr>;
         this = this\<lparr>c_y := js_add (c_y this) (snd (c_velocity this))\<rparr>;
         this = (if js_sub (c_x this) (c_radius this) > width
                 then this\<lparr>c_x := - c_radius this\<rparr> else this);
         this = (if js_add (c_x this) (c_radius this) < 0
                 then this\<lparr>c_x := js_add width (c_radius this)\<rparr> else this);
         this = (if js_sub (c_y this) (c_radius this) > height
                 then this\<lparr>c_y := - c_radius this\<rparr> else this);
         this = (if js_add (c_y this) (c_radius this) < 0
                 then this\<lparr>c_y := js_add height (c_radius this)\<rparr> else this)
     in this)"

text \<open>The body of \<^verbatim>\<open>circles.forEach\<close> in \<^verbatim>\<open>animate\<close>, without the drawing call, and
  the whole \<^verbatim>\<open>forEach\<close>. The circles are distinct objects, so the in-place loop is a map.\<close>

definition animate_circle :: "vec2 \<Rightarrow> real \<Rightarrow> real \<Rightarrow> Circle \<Rightarrow> Circle" where
  "animate_circle mouse width height circle =
    (if c_isInteractive circle
     then (let circle = circle\<lparr>c_x :=
                 js_add (c_x circle) (js_mul (js_sub (fst mouse) (c_x circle)) (fl64 0.1))\<rparr>;
               circle = circle\<lparr>c_y :=
                 js_add (c_y circle) (js_mul (js_sub (snd mouse) (c_y circle)) (fl64 0.1))\<rparr>
           in circle)
     else Circle_update width height circle)"

definition animate_circles :: "vec2 \<Rightarrow> real \<Rightarrow> real \<Rightarrow> Circle list \<Rightarrow> Circle list" where
  "animate_circles mouse width height circles = map (animate_circle mouse width height) circles"

section \<open>Blob kinematics of the field renderer\<close>

text \<open>The object literals pushed by \<^verbatim>\<open>initCircles\<close> of \<^verbatim>\<open>canvas_webgl.vue\<close>; fields
  carry the prefix \<open>g_\<close>.\<close>

record gcircle =
  g_x :: real
  g_y :: real
  g_radius :: real
  g_color :: vec3
  g_vx :: real
  g_vy :: real
  g_interactive :: bool

text \<open>The body of the loop of \<^verbatim>\<open>updateCircles\<close>, and the loop.\<close>

definition updateCircles_body :: "vec2 \<Rightarrow> real \<Rightarrow> real \<Rightarrow> gcircle \<Rightarrow> gcircle" where
  "updateCircles_body mouse width height c =
    (if \<not> g_interactive c
     then (let c = c\<lparr>g_x := js_add (g_x c) (g_vx c)\<rparr>;
               c = c\<lparr>g_y := js_add (g_y c) (g_vy c)\<rparr>;
               c = (if js_sub (g_x c) (g_radius c) > width then c\<lparr>g_x := - g_radius c\<rparr> else c);
               c = (if js_add (g_x c) (g_radius c) < 0
                    then c\<lparr>g_x := js_add width (g_radius c)\<rparr> else c);
               c = (if js_sub (g_y c) (g_radius c) > height then c\<lparr>g_y := - g_radius c\<rparr> else c);
               c = (if js_add (g_y c) (g_radius c) < 0
                    then c\<lparr>g_y := js_add height (g_radius c)\<rparr> else c)
           in c)
     else (let c = c\<lparr>g_x := js_add (g_x c) (js_mul (js_sub (fst mouse) (g_x c)) (fl64 0.1))\<rparr>;
               c = c\<lparr>g_y := js_add (g_y c) (js_mul (js_sub (snd mouse) (g_y c)) (fl64 0.1))\<rparr>
           in c))"

definition updateCircles :: "vec2 \<Rightarrow> real \<Rightarrow> real \<Rightarrow> gcircle list \<Rightarrow> gcircle list" where
  "updateCircles mouse width height circles = map (updateCircles_body mouse width height) circles"

section \<open>The wrap rectangle\<close>

text \<open>The rectangle \<open>[-radius, width + radius] \<times> [-radius, height + radius]\<close> of a blob.\<close>

definition in_wrap_rect :: "real \<Rightarrow> real \<Rightarrow> real \<Rightarrow> vec2 \<Rightarrow> bool" where
  "in_wrap_rect width height radius p =
    (- radius \<le> fst p \<and> fst p \<le> width + radius \<and> - radius \<le> snd p \<and> snd p \<le> height + radius)"

text \<open>The same rectangle with its far sides moved out by the factor \<open>1 + 2\<^sup>-\<^sup>5\<^sup>2\<close>.\<close>

definition near_wrap_rect :: "real \<Rightarrow> real \<Rightarrow> real \<Rightarrow> vec2 \<Rightarrow> bool" where
  "near_wrap_rect width height radius p =
    (- radius \<le> fst p \<and> fst p \<le> (width + radius) * (1 + 1 / 2 ^ 52)
     \<and> - radius \<le> snd p \<and> snd p \<le> (height + radius) * (1 + 1 / 2 ^ 52))"

definition c_inside :: "real \<Rightarrow> real \<Rightarrow> Circle \<Rightarrow> bool" where
  "c_inside width height c = in_wrap_rect width height (c_radius c) (c_x c, c_y c)"

definition g_inside :: "real \<Rightarrow> real \<Rightarrow> gcircle \<Rightarrow> bool" where
  "g_inside width height c = in_wrap_rect width height (g_radius c) (g_x c, g_y c)"

definition c_near_inside :: "real \<Rightarrow> real \<Rightarrow> Circle \<Rightarrow> bool" where
  "c_near_inside width height c = near_wrap_rect width height (c_radius c) (c_x c, c_y c)"

definition g_near_inside :: "real \<Rightarrow> real \<Rightarrow> gcircle \<Rightarrow> bool" where
  "g_near_inside width height c = near_wrap_rect width height (g_radius c) (g_x c, g_y c)"

text \<open>The numbers of a blob are doubles of bounded magnitude.\<close>

definition c_numbers :: "Circle \<Rightarrow> bool" where
  "c_numbers c =
    (js_number (c_x c) \<and> js_number (c_y c) \<and> js_number (c_radius c)
     \<and> js_number (fst (c_velocity c)) \<and> js_number (snd (c_velocity c)))"

definition g_numbers :: "gcircle \<Rightarrow> bool" where
  "g_numbers c =
    (js_number (g_x c) \<and> js_number (g_y c) \<and> js_number (g_radius c)
     \<and> js_number (g_vx c) \<and> js_number (g_vy c))"

text \<open>Sample scenes of two blobs each, an ambient one about to cross the right edge and
  an interactive one.\<close>

definition sample_circles :: "Circle list" where
  "sample_circles =
    [\<lparr>c_x = 139, c_y = 50, c_radius = 40, c_color = ''18, 113, 255'',
      c_velocity = (2, -1), c_isInteractive = False\<rparr>,
     \<lparr>c_x = 50, c_y = 50, c_radius = 20, c_color = ''140, 100, 255'',
      c_velocity = (0, 0), c_isInteractive = True\<rparr>]"

definition sample_gcircles :: "gcircle list" where
  "sample_gcircles =
    [\<lparr>g_x = 139, g_y = 50, g_radius = 40, g_color = (js_div 18 255, js_div 113 255, 1),
      g_vx = 2, g_vy = -1, g_interactive = False\<rparr>,
     \<lparr>g_x = 50, g_y = 50, g_radius = 20, g_color = (js_div 140 255, js_div 100 255, 1),
      g_vx = 0, g_vy = 0, g_interactive = True\<rparr>]"

text \<open>
  An ambient blob in a viewport of 301 by 601, of the radius \<^verbatim>\<open>(301 + 601) * 0.2\<close> of that
  viewport, which is the double \<open>6347260724825293 / 2\<^sup>4\<^sup>5\<close> (180.4 to 16 digits), at the
  double \<open>x = 8460082268759655 / 2\<^sup>4\<^sup>4\<close> (480.90000000000003) and moving right by \<open>0.5\<close> a
  step. An interactive blob four units in the last place short of the pointer \<open>(90, 80)\<close>
  on both axes.
\<close>

definition edge_circles :: "Circle list" where
  "edge_circles =
    [\<lparr>c_x = 8460082268759655 / 2 ^ 44, c_y = 100, c_radius = 6347260724825293 / 2 ^ 45,
      c_color = ''18, 113, 255'', c_velocity = (1 / 2, 0), c_isInteractive = False\<rparr>]"

definition edge_gcircles :: "gcircle list" where
  "edge_gcircles =
    [\<lparr>g_x = 8460082268759655 / 2 ^ 44, g_y = 100, g_radius = 6347260724825293 / 2 ^ 45,
      g_color = (js_div 18 255, js_div 113 255, 1), g_vx = 1 / 2, g_vy = 0, g_interactive = False\<rparr>]"

definition stalled_circles :: "Circle list" where
  "stalled_circles =
    [\<lparr>c_x = 90 - 1 / 2 ^ 44, c_y = 80 - 1 / 2 ^ 44, c_radius = 20,
      c_color = ''140, 100, 255'', c_velocity = (0, 0), c_isInteractive = True\<rparr>]"

section \<open>Distance to the pointer\<close>

text \<open>GLSL \<^verbatim>\<open>length\<close> of a 2-vector, also the Euclidean distance used for the interactive blob.\<close>

definition gl_length :: "vec2 \<Rightarrow> real" where
  "gl_length v = sqrt (fst v * fst v + snd v * snd v)"

definition c_dist :: "vec2 \<Rightarrow> Circle \<Rightarrow> real" where
  "c_dist mouse c = gl_length (fst mouse - c_x c, snd mouse - c_y c)"

definition g_dist :: "vec2 \<Rightarrow> gcircle \<Rightarrow> real" where
  "g_dist mouse c = gl_length (fst mouse - g_x c, snd mouse - g_y c)"

section \<open>Host events\<close>

text \<open>
  What the host delivers to a mounted component: a window resize (the new
  \<^verbatim>\<open>window.innerWidth\<close> and \<^verbatim>\<open>window.innerHeight\<close>), a mouse move (\<^verbatim>\<open>clientX\<close>,
  \<^verbatim>\<open>clientY\<close>), a tick of the frame clock (with the value of \<^verbatim>\<open>$q.dark.isActive\<close> at that
  moment), and the unmounting of the component. \<^verbatim>\<open>Math.random\<close> is a sequence
  \<open>rnd :: nat \<Rightarrow> real\<close> of draws, read in order.
\<close>

datatype event = Resize real real | MouseMove real real | AnimationFrame bool | Unmount

section \<open>The raster compositor component\<close>

definition colors :: "string list" where
  "colors = [''18, 113, 255'', ''221, 74, 255'', ''100, 220, 255'', ''200, 50, 50'',
             ''180, 180, 50'', ''140, 100, 255'']"

text \<open>\<^verbatim>\<open>init\<close>: five circles from five draws each, then the interactive circle. \<open>k\<close> is
  the number of draws made before the call.\<close>

definition init :: "real \<Rightarrow> real \<Rightarrow> (nat \<Rightarrow> real) \<Rightarrow> nat \<Rightarrow> Circle list" where
  "init width height rnd k =
    map (\<lambda>i.
      (let radius = js_mul (js_add width height) (fl64 0.2);
           x = js_mul (rnd (k + 5 * i)) width;
           y = js_mul (rnd (k + 5 * i + 1)) height;
           speedMultiplier = js_add (js_mul (rnd (k + 5 * i + 2)) 4) 1;
           velocity = (js_mul (js_sub (rnd (k + 5 * i + 3)) (fl64 0.5)) speedMultiplier,
                       js_mul (js_sub (rnd (k + 5 * i + 4)) (fl64 0.5)) speedMultiplier)
       in \<lparr>c_x = x, c_y = y, c_radius = radius, c_color = colors ! i,
            c_velocity = velocity, c_isInteractive = False\<rparr>)) [0..<5]
    @ [\<lparr>c_x = js_div width 2, c_y = js_div height 2,
         c_radius = js_mul (js_add width height) (fl64 0.1),
         c_color = colors ! 5, c_velocity = (0, 0), c_isInteractive = True\<rparr>]"

text \<open>
  The variables of the \<^verbatim>\<open>onMounted\<close> closure and the part of the host they act on:
  the two window listeners, the list of pending animation-frame requests with the next
  handle to hand out, the blur filter of the off-screen context, the composite operation
  in force at the last \<^verbatim>\<open>drawImage\<close>, and the composite operation of the visible context.
  The pixels themselves are not part of the state.
\<close>

record html_state =
  h_width :: real
  h_height :: real
  h_mouse :: vec2
  h_circles :: "Circle list"
  h_animationFrameId :: "nat option"
  h_resize :: bool
  h_mousemove :: bool
  h_unmount_hook :: bool
  h_pending :: "nat list"
  h_next_handle :: nat
  h_draws :: nat
  h_offCtx_filter :: string
  h_drawImage_op :: string
  h_ctx_op :: string

definition blurMode :: "bool \<Rightarrow> string" where
  "blurMode dark = (if \<not> dark then ''blur(80px)'' else ''blur(40px)'')"

definition lightMode :: "bool \<Rightarrow> string" where
  "lightMode dark = (if \<not> dark then ''lighter'' else ''hue'')"

text \<open>\<^verbatim>\<open>animate\<close>; \<open>dark\<close> is \<^verbatim>\<open>$q.dark.isActive\<close>.\<close>

definition animate :: "bool \<Rightarrow> html_state \<Rightarrow> html_state" where
  "animate dark s =
    (let s = s\<lparr>h_offCtx_filter := blurMode dark\<rparr>;
         s = s\<lparr>h_circles := animate_circles (h_mouse s) (h_width s) (h_height s) (h_circles s)\<rparr>;
         s = s\<lparr>h_ctx_op := lightMode dark\<rparr>;
         s = s\<lparr>h_drawImage_op := h_ctx_op s\<rparr>;
         s = s\<lparr>h_ctx_op := ''source-over''\<rparr>;
         handle = h_next_handle s
     in s\<lparr>h_pending := h_pending s @ [handle], h_next_handle := handle + 1,
           h_animationFrameId := Some handle\<rparr>)"

definition resizeCanvas :: "(nat \<Rightarrow> real) \<Rightarrow> real \<Rightarrow> real \<Rightarrow> html_state \<Rightarrow> html_state" where
  "resizeCanvas rnd innerWidth innerHeight s =
    (let s = s\<lparr>h_width := innerWidth, h_height := innerHeight\<rparr>
     in s\<lparr>h_circles := init (h_width s) (h_height s) rnd (h_draws s), h_draws := h_draws s + 25\<rparr>)"

definition onMouseMove :: "real \<Rightarrow> real \<Rightarrow> html_state \<Rightarrow> html_state" where
  "onMouseMove clientX clientY s = s\<lparr>h_mouse := (clientX, clientY)\<rparr>"

definition onUnmounted :: "html_state \<Rightarrow> html_state" where
  "onUnmounted s =
    (let s = s\<lparr>h_resize := False\<rparr>;
         s = s\<lparr>h_mousemove := False\<rparr>
     in case h_animationFrameId s of
          None \<Rightarrow> s
        | Some handle \<Rightarrow> s\<lparr>h_pending := removeAll handle (h_pending s)\<rparr>)"

definition onMounted :: "(nat \<Rightarrow> real) \<Rightarrow> real \<Rightarrow> real \<Rightarrow> bool \<Rightarrow> html_state" where
  "onMounted rnd innerWidth innerHeight dark =
    (let width = innerWidth; height = innerHeight;
         s = \<lparr>h_width = width, h_height = height, h_mouse = (js_div width 2, js_div height 2),
              h_circles = [], h_animationFrameId = None, h_resize = True, h_mousemove = True,
              h_unmount_hook = True, h_pending = [], h_next_handle = 1, h_draws = 0,
              h_offCtx_filter = ''none'', h_drawImage_op = ''source-over'',
              h_ctx_op = ''source-over''\<rparr>;
         s = s\<lparr>h_circles := init (h_width s) (h_height s) rnd (h_draws s), h_draws := h_draws s + 25\<rparr>
     in animate dark s)"

text \<open>One event on the mounted component. A listener runs only while it is attached; a
  tick runs the callback of every pending request; the unmount hook runs once.\<close>

definition h_deliver :: "(nat \<Rightarrow> real) \<Rightarrow> event \<Rightarrow> html_state \<Rightarrow> html_state" where
  "h_deliver rnd e s =
    (case e of
       Resize innerWidth innerHeight \<Rightarrow>
         if h_resize s then resizeCanvas rnd innerWidth innerHeight s else s
     | MouseMove clientX clientY \<Rightarrow>
         if h_mousemove s then onMouseMove clientX clientY s else s
     | AnimationFrame dark \<Rightarrow>
         fold (\<lambda>handle. animate dark) (h_pending s) (s\<lparr>h_pending := []\<rparr>)
     | Unmount \<Rightarrow>
         if h_unmount_hook s then onUnmounted (s\<lparr>h_unmount_hook := False\<rparr>) else s)"

definition h_run :: "(nat \<Rightarrow> real) \<Rightarrow> event list \<Rightarrow> html_state \<Rightarrow> html_state" where
  "h_run rnd es s = fold (h_deliver rnd) es s"

section \<open>The fragment shader of the field renderer\<close>

record uniforms =
  u_resolution :: vec2
  u_darkMode :: bool
  u_circleCount :: int
  u_circlesColor :: "vec3 list"
  u_circlesPosRad :: "vec3 list"
  u_mouse :: vec2

definition v3_add :: "vec3 \<Rightarrow> vec3 \<Rightarrow> vec3" where
  "v3_add a b = (fst a + fst b, fst (snd a) + fst (snd b), snd (snd a) + snd (snd b))"

definition v3_scale :: "vec3 \<Rightarrow> real \<Rightarrow> vec3" where
  "v3_scale a k = (fst a * k, fst (snd a) * k, snd (snd a) * k)"

definition v3_div :: "vec3 \<Rightarrow> real \<Rightarrow> vec3" where
  "v3_div a k = (fst a / k, fst (snd a) / k, snd (snd a) / k)"

definition mix :: "vec3 \<Rightarrow> vec3 \<Rightarrow> real \<Rightarrow> vec3" where
  "mix a b t = v3_add (v3_scale a (1 - t)) (v3_scale b t)"

definition clamp :: "real \<Rightarrow> real \<Rightarrow> real \<Rightarrow> real" where
  "clamp v lo hi = min (max v lo) hi"

definition topColor :: vec3 where
  "topColor = (108 / 255, 0, 162 / 255)"

definition bottomColor :: vec3 where
  "bottomColor = (0, 17 / 255, 82 / 255)"

text \<open>
  The loop \<^verbatim>\<open>for (int i = 0; i < 6; i++)\<close> over the remaining indices, with the
  accumulators \<^verbatim>\<open>fieldSum\<close> and \<^verbatim>\<open>weightedColorSum\<close>. The \<^verbatim>\<open>break\<close> returns the
  accumulators; a zero divisor in the gaussian leaves the result unspecified.
\<close>

fun field_loop_from :: "uniforms \<Rightarrow> vec2 \<Rightarrow> nat list \<Rightarrow> real \<times> vec3 \<Rightarrow> (real \<times> vec3) option" where
  "field_loop_from u st [] acc = Some acc"
| "field_loop_from u st (i # rest) acc =
    (if int i \<ge> u_circleCount u then Some acc
     else
       (let posRad = u_circlesPosRad u ! i;
            cPos = (fst posRad, fst (snd posRad));
            radius = snd (snd posRad);
            dist = gl_length (fst st - fst cPos, snd st - snd cPos);
            sigma = radius * 0.5
        in case gl_div (- (dist * dist)) (2.0 * sigma * sigma) of
             None \<Rightarrow> None
           | Some q \<Rightarrow>
               (let val = exp q
                in field_loop_from u st rest
                     (fst acc + val, v3_add (snd acc) (v3_scale (u_circlesColor u ! i) val)))))"

definition field_loop :: "uniforms \<Rightarrow> vec2 \<Rightarrow> (real \<times> vec3) option" where
  "field_loop u st = field_loop_from u st [0..<6] (0, (0, 0, 0))"

text \<open>\<^verbatim>\<open>finalCirclesColor\<close> from the two accumulators.\<close>

definition finalCirclesColor :: "real \<times> vec3 \<Rightarrow> vec3" where
  "finalCirclesColor acc = (if fst acc > 0 then v3_div (snd acc) (fst acc) else (0, 0, 0))"

text \<open>Everything \<^verbatim>\<open>main\<close> computes before the theme branch: \<^verbatim>\<open>bgColor\<close>,
  \<^verbatim>\<open>finalCirclesColor\<close> and \<^verbatim>\<open>intensity\<close>.\<close>

definition pre_mix :: "uniforms \<Rightarrow> vec2 \<Rightarrow> (vec3 \<times> vec3 \<times> real) option" where
  "pre_mix u v_uv =
    (let st = (fst v_uv * fst (u_resolution u), snd v_uv * snd (u_resolution u))
     in case gl_div (snd st) (snd (u_resolution u)) of
          None \<Rightarrow> None
        | Some t \<Rightarrow>
            (let bgColor = mix topColor bottomColor t
             in case field_loop u st of
                  None \<Rightarrow> None
                | Some acc \<Rightarrow>
                    (let intensity = fst acc powr 1.4
                     in Some (bgColor, finalCirclesColor acc, intensity))))"

text \<open>The two arms of the theme branch, as the source has them.\<close>

definition light_arm :: "vec3 \<Rightarrow> vec3 \<Rightarrow> real \<Rightarrow> vec3" where
  "light_arm bgColor circlesColor intensity = mix bgColor circlesColor (clamp intensity 0.0 1.0)"

definition dark_arm :: "vec3 \<Rightarrow> vec3 \<Rightarrow> real \<Rightarrow> vec3" where
  "dark_arm bgColor circlesColor intensity = mix bgColor circlesColor (clamp intensity 0.0 1.0)"

text \<open>\<^verbatim>\<open>main\<close> with the two arms as parameters, and \<^verbatim>\<open>main\<close> itself. The result is
  \<^verbatim>\<open>gl_FragColor\<close>, the colour and the alpha \<open>1\<close>.\<close>

definition fragment_main_with ::
  "(vec3 \<Rightarrow> vec3 \<Rightarrow> real \<Rightarrow> vec3) \<Rightarrow> (vec3 \<Rightarrow> vec3 \<Rightarrow> real \<Rightarrow> vec3) \<Rightarrow> uniforms \<Rightarrow> vec2 \<Rightarrow> (vec3 \<times> real) option" where
  "fragment_main_with light dark u v_uv =
    (case pre_mix u v_uv of
       None \<Rightarrow> None
     | Some (bgColor, circlesColor, intensity) \<Rightarrow>
         Some (if \<not> u_darkMode u then light bgColor circlesColor intensity
               else dark bgColor circlesColor intensity, 1.0))"

definition fragment_main :: "uniforms \<Rightarrow> vec2 \<Rightarrow> (vec3 \<times> real) option" where
  "fragment_main u v_uv = fragment_main_with light_arm dark_arm u v_uv"

section \<open>The field renderer component\<close>

definition circleColors :: "vec3 list" where
  "circleColors =
    [(js_div 18 255, js_div 113 255, 1.0), (js_div 221 255, js_div 74 255, 1.0),
     (js_div 100 255, js_div 220 255, 1.0), (js_div 200 255, js_div 50 255, js_div 50 255),
     (js_div 180 255, js_div 180 255, js_div 50 255), (js_div 140 255, js_div 100 255, 1.0)]"

definition initCircles :: "real \<Rightarrow> real \<Rightarrow> (nat \<Rightarrow> real) \<Rightarrow> nat \<Rightarrow> gcircle list" where
  "initCircles width height rnd k =
    (let baseRadius = js_mul (js_add width height) (fl64 0.2)
     in map (\<lambda>i.
          (let radius = baseRadius;
               x = js_mul (rnd (k + 5 * i)) width;
               y = js_mul (rnd (k + 5 * i + 1)) height;
               speedMultiplier = js_add (js_mul (rnd (k + 5 * i + 2)) 4) 1;
               vx = js_mul (js_sub (rnd (k + 5 * i + 3)) (fl64 0.5)) speedMultiplier;
               vy = js_mul (js_sub (rnd (k + 5 * i + 4)) (fl64 0.5)) speedMultiplier
           in \<lparr>g_x = x, g_y = y, g_radius = radius, g_color = circleColors ! i,
                g_vx = vx, g_vy = vy, g_interactive = False\<rparr>)) [0..<5]
        @ [(let interactiveRadius = js_mul (js_add width height) (fl64 0.1)
            in \<lparr>g_x = js_div width 2, g_y = js_div height 2, g_radius = interactiveRadius,
                 g_color = circleColors ! 5, g_vx = 0, g_vy = 0, g_interactive = True\<rparr>)])"

text \<open>
  The uniform uploads of \<^verbatim>\<open>render\<close>. The two flat arrays of 18 numbers are read by the
  shader as six 3-vectors; they are lists of six triples here. A \<^verbatim>\<open>bool\<close> uniform set
  through \<^verbatim>\<open>uniform1i\<close> is true when the integer is not zero.
\<close>

definition render_upload :: "real \<Rightarrow> real \<Rightarrow> vec2 \<Rightarrow> bool \<Rightarrow> gcircle list \<Rightarrow> uniforms" where
  "render_upload width height mouse dark circles =
    \<lparr>u_resolution = (width, height),
     u_darkMode = ((if dark then 1 else 0 :: int) \<noteq> 0),
     u_circleCount = int (length circles),
     u_circlesColor =
       map (\<lambda>i. if i < length circles then g_color (circles ! i) else (0, 0, 0)) [0..<6],
     u_circlesPosRad =
       map (\<lambda>i. if i < length circles
                then (g_x (circles ! i), g_y (circles ! i), g_radius (circles ! i))
                else (0, 0, 0)) [0..<6],
     u_mouse = mouse\<rparr>"

text \<open>The closure variables of the field renderer, its listeners, the pending
  animation-frame requests, whether a linked program is in use, and the uniforms of that
  program.\<close>

record gl_state =
  g_width :: real
  g_height :: real
  g_mouse :: vec2
  g_circles :: "gcircle list"
  g_resize :: bool
  g_mousemove :: bool
  g_unmount_hook :: bool
  g_pending :: "nat list"
  g_next_handle :: nat
  g_program :: bool
  g_uniforms :: uniforms

text \<open>\<^verbatim>\<open>render\<close>: the simulation step, the uploads, the next request. Its handle is
  dropped. Without a linked program the uniform locations are null and the uploads do
  nothing.\<close>

definition render :: "bool \<Rightarrow> gl_state \<Rightarrow> gl_state" where
  "render dark s =
    (let s = s\<lparr>g_circles := updateCircles (g_mouse s) (g_width s) (g_height s) (g_circles s)\<rparr>;
         s = (if g_program s
              then s\<lparr>g_uniforms :=
                     render_upload (g_width s) (g_height s) (g_mouse s) dark (g_circles s)\<rparr>
              else s);
         handle = g_next_handle s
     in s\<lparr>g_pending := g_pending s @ [handle], g_next_handle := handle + 1\<rparr>)"

definition gl_resizeCanvas :: "real \<Rightarrow> real \<Rightarrow> gl_state \<Rightarrow> gl_state" where
  "gl_resizeCanvas innerWidth innerHeight s = s\<lparr>g_width := innerWidth, g_height := innerHeight\<rparr>"

definition gl_onMouseMove :: "real \<Rightarrow> real \<Rightarrow> gl_state \<Rightarrow> gl_state" where
  "gl_onMouseMove clientX clientY s = s\<lparr>g_mouse := (clientX, clientY)\<rparr>"

definition gl_onUnmounted :: "gl_state \<Rightarrow> gl_state" where
  "gl_onUnmounted s = (let s = s\<lparr>g_resize := False\<rparr> in s\<lparr>g_mousemove := False\<rparr>)"

text \<open>
  What the host offers at mount time: whether \<^verbatim>\<open>getContext("webgl")\<close> returns a context,
  and the info log of a failed compilation of either shader or of a failed link
  (\<open>None\<close> when it succeeds).
\<close>

record gl_env =
  has_webgl :: bool
  vertex_log :: "string option"
  fragment_log :: "string option"
  link_log :: "string option"

definition createShader_console :: "string option \<Rightarrow> string list" where
  "createShader_console info =
    (case info of None \<Rightarrow> [] | Some msg \<Rightarrow> [''Shader compile error: '' @ msg])"

text \<open>The closure of \<^verbatim>\<open>onMounted\<close> once the context is there: sizes, listeners, pointer
  and scene, nothing requested, no program, the uniforms of a program at zero.\<close>

definition gl_closure :: "(nat \<Rightarrow> real) \<Rightarrow> real \<Rightarrow> real \<Rightarrow> gl_state" where
  "gl_closure rnd innerWidth innerHeight =
    (let width = innerWidth; height = innerHeight
     in \<lparr>g_width = width, g_height = height, g_mouse = (js_div width 2, js_div height 2),
         g_circles = initCircles width height rnd 0,
         g_resize = True, g_mousemove = True, g_unmount_hook = False,
         g_pending = [], g_next_handle = 1, g_program = False,
         g_uniforms = \<lparr>u_resolution = (0, 0), u_darkMode = False,
           u_circleCount = 0, u_circlesColor = replicate 6 (0, 0, 0),
           u_circlesPosRad = replicate 6 (0, 0, 0), u_mouse = (0, 0)\<rparr>\<rparr>)"

text \<open>
  \<^verbatim>\<open>onMounted\<close> of the field renderer: the lines written by \<^verbatim>\<open>console.error\<close>, and
  the component state, \<open>None\<close> when the hook returned before creating it. The listeners
  and the scene come first. \<^verbatim>\<open>createShader\<close> returns null for a shader that does not
  compile, and \<^verbatim>\<open>attachShader\<close> throws on null: the hook ends there, with no frame
  requested and no unmount hook registered. A program that does not link is reported and
  the hook goes on, with no program in use. With a program \<^verbatim>\<open>u_resolution\<close> is set once;
  then \<^verbatim>\<open>render\<close> runs and the unmount hook is registered.
\<close>

definition gl_onMounted ::
  "gl_env \<Rightarrow> (nat \<Rightarrow> real) \<Rightarrow> real \<Rightarrow> real \<Rightarrow> bool \<Rightarrow> string list \<times> gl_state option" where
  "gl_onMounted env rnd innerWidth innerHeight dark =
    (if \<not> has_webgl env then ([''WebGL not supported''], None)
     else
       (let s = gl_closure rnd innerWidth innerHeight;
            console = createShader_console (vertex_log env)
                      @ createShader_console (fragment_log env)
        in if vertex_log env \<noteq> None \<or> fragment_log env \<noteq> None then (console, Some s)
           else
             (let console = console @ (case link_log env of None \<Rightarrow> []
                                       | Some msg \<Rightarrow> [''Program link error: '' @ msg]);
                  s = s\<lparr>g_program := (link_log env = None)\<rparr>;
                  s = (if g_program s
                       then s\<lparr>g_uniforms :=
                              (g_uniforms s)\<lparr>u_resolution := (g_width s, g_height s)\<rparr>\<rparr>
                       else s);
                  s = render dark s
              in (console, Some (s\<lparr>g_unmount_hook := True\<rparr>)))))"

text \<open>Both shaders compile and the program links.\<close>

definition shaders_ok :: "gl_env \<Rightarrow> bool" where
  "shaders_ok env = (vertex_log env = None \<and> fragment_log env = None \<and> link_log env = None)"

definition gl_deliver :: "event \<Rightarrow> gl_state \<Rightarrow> gl_state" where
  "gl_deliver e s =
    (case e of
       Resize innerWidth innerHeight \<Rightarrow>
         if g_resize s then gl_resizeCanvas innerWidth innerHeight s else s
     | MouseMove clientX clientY \<Rightarrow>
         if g_mousemove s then gl_onMouseMove clientX clientY s else s
     | AnimationFrame dark \<Rightarrow>
         fold (\<lambda>handle. render dark) (g_pending s) (s\<lparr>g_pending := []\<rparr>)
     | Unmount \<Rightarrow>
         if g_unmount_hook s then gl_onUnmounted (s\<lparr>g_unmount_hook := False\<rparr>) else s)"

text \<open>Events on a component that may not have started: nothing is registered then.\<close>

definition gl_run :: "event list \<Rightarrow> gl_state option \<Rightarrow> gl_state option" where
  "gl_run es c = fold (\<lambda>e. map_option (gl_deliver e)) es c"

section \<open>The field of a list of blobs\<close>

text \<open>
  The field accumulation as the specification words it, over the blobs themselves and
  with no uniform slots: for each blob \<open>dist = |st - position|\<close>, \<open>sigma = radius * 0.5\<close>,
  \<open>value = exp (- dist\<^sup>2 / (2 sigma\<^sup>2))\<close>, added to \<open>fieldSum\<close> and, times the colour, to
  \<open>weightedColor\<close>.
\<close>

fun blobs_field :: "vec2 \<Rightarrow> gcircle list \<Rightarrow> real \<times> vec3 \<Rightarrow> (real \<times> vec3) option" where
  "blobs_field st [] acc = Some acc"
| "blobs_field st (b # bs) acc =
    (let dist = gl_length (fst st - g_x b, snd st - g_y b);
         sigma = g_radius b * 0.5
     in case gl_div (- (dist * dist)) (2 * sigma * sigma) of
          None \<Rightarrow> None
        | Some q \<Rightarrow> blobs_field st bs (fst acc + exp q, v3_add (snd acc) (v3_scale (g_color b) (exp q))))"

text \<open>The pixel of a list of blobs as the specification words it: background, resolved
  colour (the weighted average when \<open>fieldSum > 0\<close>), intensity \<open>fieldSum ^ 1.4\<close> clamped to
  \<open>[0, 1]\<close>, and the mix; \<open>st\<close> is in pixel coordinates.\<close>

definition blobs_pixel :: "real \<Rightarrow> real \<Rightarrow> gcircle list \<Rightarrow> vec2 \<Rightarrow> (vec3 \<times> real) option" where
  "blobs_pixel width height blobs st =
    (case gl_div (snd st) height of
       None \<Rightarrow> None
     | Some t \<Rightarrow>
        (case blobs_field st blobs (0, (0, 0, 0)) of
           None \<Rightarrow> None
         | Some (fieldSum, weightedColor) \<Rightarrow>
             Some (mix (mix topColor bottomColor t)
                       (if fieldSum > 0 then v3_div weightedColor fieldSum else (0, 0, 0))
                       (min (max (fieldSum powr 1.4) 0) 1), 1)))"

section \<open>Sample inputs\<close>

text \<open>A sequence of draws that are all \<open>3/4\<close>, a host with a working GPU backend and one
  without, and the two components mounted in a window of 800 by 600 pixels.\<close>

definition sample_rnd :: "nat \<Rightarrow> real" where
  "sample_rnd n = 3 / 4"

definition sample_env :: gl_env where
  "sample_env = \<lparr>has_webgl = True, vertex_log = None, fragment_log = None, link_log = None\<rparr>"

definition sample_env_no_webgl :: gl_env where
  "sample_env_no_webgl = \<lparr>has_webgl = False, vertex_log = None, fragment_log = None, link_log = None\<rparr>"

definition sample_html :: html_state where
  "sample_html = onMounted sample_rnd 800 600 False"

definition sample_gl :: "gl_state option" where
  "sample_gl = snd (gl_onMounted sample_env sample_rnd 800 600 False)"

section \<open>Teleporting at the wrap boundary\<close>

text \<open>
  What the two boundary tests of one axis compute from the coordinate after the add:
  \<open>extent\<close> is the width or the height.
\<close>

definition wrap_axis :: "real \<Rightarrow> real \<Rightarrow> real \<Rightarrow> real" where
  "wrap_axis extent radius x1 =
    (let x2 = (if js_sub x1 radius > extent then - radius else x1)
     in if js_add x2 radius < 0 then js_add extent radius else x2)"

text \<open>
  The wrap rule of one axis, between the coordinate \<open>x1\<close> after the add and the coordinate
  \<open>x'\<close> after the step. When the rounded difference \<open>x1 - radius\<close> exceeds the extent, as the
  program tests it, the blob is at \<open>-radius\<close>; when the rounded sum \<open>x1 + radius\<close> is negative,
  the blob is at the rounded \<open>extent + radius\<close>; otherwise it stays. The first test holds
  whenever the exact difference exceeds the extent by more than the factor \<open>1 + 2\<^sup>-\<^sup>5\<^sup>2\<close>, the
  second whenever the exact sum is negative.
\<close>

definition wraps_axis :: "real \<Rightarrow> real \<Rightarrow> real \<Rightarrow> real \<Rightarrow> bool" where
  "wraps_axis extent radius x1 x' =
    ((js_sub x1 radius > extent \<longrightarrow> x' = - radius)
   \<and> (js_add x1 radius < 0 \<longrightarrow> x' = js_add extent radius)
   \<and> (\<not> js_sub x1 radius > extent \<and> \<not> js_add x1 radius < 0 \<longrightarrow> x' = x1)
   \<and> (x1 - radius > extent * (1 + 1 / 2 ^ 52) \<longrightarrow> x' = - radius)
   \<and> (x1 + radius < 0 \<longrightarrow> x' = js_add extent radius))"

definition c_teleports :: "real \<Rightarrow> real \<Rightarrow> Circle \<Rightarrow> Circle \<Rightarrow> bool" where
  "c_teleports width height c c' =
    (wraps_axis width (c_radius c) (js_add (c_x c) (fst (c_velocity c))) (c_x c')
     \<and> wraps_axis height (c_radius c) (js_add (c_y c) (snd (c_velocity c))) (c_y c'))"

definition g_teleports :: "real \<Rightarrow> real \<Rightarrow> gcircle \<Rightarrow> gcircle \<Rightarrow> bool" where
  "g_teleports width height c c' =
    (wraps_axis width (g_radius c) (js_add (g_x c) (g_vx c)) (g_x c')
     \<and> wraps_axis height (g_radius c) (js_add (g_y c) (g_vy c)) (g_y c'))"

text \<open>The pointer-follow rule of one axis, between the coordinate \<open>x\<close> before a step, the
  coordinate \<open>x'\<close> after it and the pointer \<open>m\<close>: the blob moves toward the pointer and
  not past it, and stays when it is there.\<close>

definition follows_axis :: "real \<Rightarrow> real \<Rightarrow> real \<Rightarrow> bool" where
  "follows_axis m x x' =
    (x' = js_add x (js_mul (js_sub m x) (fl64 0.1))
     \<and> (x \<le> m \<longrightarrow> x \<le> x' \<and> x' \<le> m)
     \<and> (m \<le> x \<longrightarrow> m \<le> x' \<and> x' \<le> x)
     \<and> (x = m \<longrightarrow> x' = x))"

section \<open>Scene structure\<close>

text \<open>\<^verbatim>\<open>window.innerWidth\<close> and \<^verbatim>\<open>window.innerHeight\<close> are of the interface type \<^verbatim>\<open>long\<close>:
  whole numbers of pixels below \<open>2\<^sup>3\<^sup>1\<close>, not negative.\<close>

definition window_size :: "real \<Rightarrow> bool" where
  "window_size w = (w \<in> \<nat> \<and> w < 2 ^ 31)"

text \<open>The structure of a scene of the field renderer created for the rounded sum \<open>R\<close> of
  width and height:
  radii, interactive flags and palette colours by position. With it, what holds of every
  state of the running field renderer: the uniforms of a program in use were uploaded
  from the circles.\<close>

definition gl_scene_ok :: "real \<Rightarrow> gcircle list \<Rightarrow> bool" where
  "gl_scene_ok R cs =
    (map g_radius cs = [js_mul R (fl64 0.2), js_mul R (fl64 0.2), js_mul R (fl64 0.2),
                           js_mul R (fl64 0.2), js_mul R (fl64 0.2), js_mul R (fl64 0.1)]
     \<and> map g_interactive cs = [False, False, False, False, False, True]
     \<and> map g_color cs = circleColors)"

definition gl_inv :: "real \<Rightarrow> gl_state \<Rightarrow> bool" where
  "gl_inv R s =
    (gl_scene_ok R (g_circles s)
     \<and> (g_program s \<longrightarrow>
          (\<exists>width height mouse dark.
             g_uniforms s = render_upload width height mouse dark (g_circles s))))"

text \<open>The structure of a scene of the raster compositor.\<close>

definition scene_ok :: "Circle list \<Rightarrow> bool" where
  "scene_ok cs =
    (map c_isInteractive cs = [False, False, False, False, False, True]
     \<and> map c_color cs = colors)"

text \<open>Observations of a field renderer that may not have started.\<close>

definition gl_scene_positions :: "gl_state option \<Rightarrow> vec2 list" where
  "gl_scene_positions c =
    (case c of None \<Rightarrow> [] | Some s \<Rightarrow> map (\<lambda>b. (g_x b, g_y b)) (g_circles s))"

definition gl_listeners :: "gl_state option \<Rightarrow> bool \<times> bool" where
  "gl_listeners c = (case c of None \<Rightarrow> (False, False) | Some s \<Rightarrow> (g_resize s, g_mousemove s))"

definition gl_pending_frames :: "gl_state option \<Rightarrow> nat list" where
  "gl_pending_frames c = (case c of None \<Rightarrow> [] | Some s \<Rightarrow> g_pending s)"


section \<open>Disposal of the raster compositor\<close>

text \<open>A disposed raster compositor has no listener, no pending frame request and no
  unmount hook left. What holds of every state of the mounted one: at most one frame
  request is pending, the one whose handle \<^verbatim>\<open>animationFrameId\<close> holds, and once the
  unmount hook has run the component is disposed.\<close>

definition h_disposed :: "html_state \<Rightarrow> bool" where
  "h_disposed s = (\<not> h_resize s \<and> \<not> h_mousemove s \<and> h_pending s = [] \<and> \<not> h_unmount_hook s)"

definition h_inv :: "html_state \<Rightarrow> bool" where
  "h_inv s =
    ((h_pending s = [] \<or> map Some (h_pending s) = [h_animationFrameId s])
     \<and> (\<not> h_unmount_hook s \<longrightarrow> h_disposed s))"

section \<open>Properties of the rounding\<close>

lemma round_even_bounds: "\<lfloor>q\<rfloor> \<le> round_even q \<and> round_even q \<le> \<lfloor>q\<rfloor> + 1"
  by (simp add: round_even_def Let_def)

lemma round_even_of_int [simp]: "round_even (of_int k) = k"
  by (simp add: round_even_def)

lemma round_even_0 [simp]: "round_even 0 = 0"
  by (simp add: round_even_def)

lemma round_even_mono:
  assumes "q \<le> q'"
  shows "round_even q \<le> round_even q'"
proof (cases "\<lfloor>q\<rfloor> = \<lfloor>q'\<rfloor>")
  case True
  with assms show ?thesis by (auto simp: round_even_def Let_def)
next
  case False
  with assms have "\<lfloor>q\<rfloor> < \<lfloor>q'\<rfloor>" by (simp add: floor_mono order.strict_iff_order)
  with round_even_bounds [of q] round_even_bounds [of q'] show ?thesis by linarith
qed

lemma round_even_err: "\<bar>of_int (round_even q) - q\<bar> \<le> 1 / 2"
proof -
  have "of_int \<lfloor>q\<rfloor> \<le> q" "q < of_int \<lfloor>q\<rfloor> + 1" by linarith+
  then show ?thesis by (auto simp: round_even_def Let_def)
qed

lemma round_even_nonneg: "0 \<le> q \<Longrightarrow> 0 \<le> round_even q"
  using round_even_mono [of "of_int 0" q] by (simp del: of_int_0)

lemma pow2_pos [simp]: "0 < pow2 e"
  by (simp add: pow2_def)

lemma pow2_nonneg [simp]: "0 \<le> pow2 e"
  by (simp add: pow2_def)

lemma pow2_neq0 [simp]: "pow2 e \<noteq> 0"
  by (simp add: pow2_def)

lemma pow2_add: "pow2 (a + b) = pow2 a * pow2 b"
  by (simp add: pow2_def powr_add)

lemma pow2_mono: "a \<le> b \<Longrightarrow> pow2 a \<le> pow2 b"
  by (simp add: pow2_def powr_mono)

lemma pow2_less: "a < b \<Longrightarrow> pow2 a < pow2 b"
  by (simp add: pow2_def powr_less_mono)

lemma pow2_nat: "pow2 (int n) = 2 ^ n"
  by (simp add: pow2_def powr_realpow)

lemma pow2_neg_nat: "pow2 (- int n) = 1 / 2 ^ n"
  by (simp add: pow2_def powr_minus powr_realpow inverse_eq_divide)

lemma pow2_split: "a \<le> b \<Longrightarrow> pow2 b = 2 ^ nat (b - a) * pow2 a"
proof -
  assume "a \<le> b"
  then have "b = int (nat (b - a)) + a" by simp
  then have "pow2 b = pow2 (int (nat (b - a))) * pow2 a" by (metis pow2_add)
  then show ?thesis by (simp only: pow2_nat)
qed

lemma expo64_ge: "- 1022 \<le> expo64 a"
  by (simp add: expo64_def)

lemma expo64_upper:
  assumes "0 < a"
  shows "a < pow2 (expo64 a + 1)"
proof -
  have "a < 2 powr (of_int (\<lfloor>log 2 a\<rfloor> + 1))"
    using assms floor_log_eq_powr_iff [of a 2 "\<lfloor>log 2 a\<rfloor>"] by simp
  also have "\<dots> \<le> pow2 (expo64 a + 1)"
    unfolding pow2_def using assms by (intro powr_mono) (simp_all add: expo64_def)
  finally show ?thesis .
qed

lemma expo64_eq:
  assumes "0 < a" "- 1022 \<le> e" "pow2 e \<le> a" "a < pow2 (e + 1)"
  shows "expo64 a = e"
proof -
  have "\<lfloor>log 2 a\<rfloor> = e"
    using assms floor_log_eq_powr_iff [of a 2 e] by (simp add: pow2_def)
  with assms show ?thesis by (simp add: expo64_def)
qed

lemma expo64_small:
  assumes "0 < a" "a < pow2 (- 1022)"
  shows "expo64 a = - 1022"
proof -
  have "\<lfloor>log 2 a\<rfloor> < - 1022"
  proof (rule ccontr)
    assume "\<not> \<lfloor>log 2 a\<rfloor> < - 1022"
    then have "- 1022 \<le> \<lfloor>log 2 a\<rfloor>" by simp
    then have "pow2 (- 1022) \<le> pow2 \<lfloor>log 2 a\<rfloor>" by (rule pow2_mono)
    also have "\<dots> \<le> a"
      using assms(1) floor_log_eq_powr_iff [of a 2 "\<lfloor>log 2 a\<rfloor>"] by (simp add: pow2_def)
    finally show False using assms(2) by simp
  qed
  then show ?thesis using assms by (simp add: expo64_def)
qed

lemma expo64_lower:
  assumes "pow2 (- 1022) \<le> a"
  shows "pow2 (expo64 a) \<le> a"
proof -
  have a: "0 < a" using assms pow2_pos [of "- 1022"] by linarith
  have "- 1022 \<le> \<lfloor>log 2 a\<rfloor>"
  proof -
    have "log 2 (pow2 (- 1022)) \<le> log 2 a" using assms a by (intro log_mono) simp_all
    moreover have "log 2 (pow2 (- 1022)) = - 1022" by (simp add: pow2_def)
    ultimately show ?thesis by (simp add: le_floor_iff)
  qed
  then have "expo64 a = \<lfloor>log 2 a\<rfloor>" using a by (simp add: expo64_def)
  then show ?thesis
    using a floor_log_eq_powr_iff [of a 2 "\<lfloor>log 2 a\<rfloor>"] by (simp add: pow2_def)
qed

lemma expo64_mono:
  assumes "0 < a" "a \<le> b"
  shows "expo64 a \<le> expo64 b"
proof -
  have "log 2 a \<le> log 2 b" using assms by (intro log_mono) simp_all
  then have "\<lfloor>log 2 a\<rfloor> \<le> \<lfloor>log 2 b\<rfloor>" by (rule floor_mono)
  then show ?thesis using assms by (simp add: expo64_def)
qed


lemma expo64_lower':
  assumes "0 < a" "- 1022 < expo64 a"
  shows "pow2 (expo64 a) \<le> a"
proof (rule expo64_lower, rule ccontr)
  assume "\<not> pow2 (- 1022) \<le> a"
  with assms(1) have "expo64 a = - 1022" by (intro expo64_small) simp_all
  with assms(2) show False by simp
qed

lemma rn64_0 [simp]: "rn64 0 = 0"
  by (simp add: rn64_def)

lemma rn64_nonneg: "0 \<le> a \<Longrightarrow> 0 \<le> rn64 a"
  by (simp add: rn64_def Let_def round_even_nonneg)

lemma pow2_half: "pow2 (e - 53) = pow2 (e - 52) / 2"
proof -
  have "pow2 (e - 52) = pow2 ((e - 53) + 1)" by simp
  also have "\<dots> = pow2 (e - 53) * 2" by (simp only: pow2_add) (simp add: pow2_def)
  finally show ?thesis by simp
qed

lemma rn64_err: "\<bar>rn64 a - a\<bar> \<le> pow2 (expo64 a - 53)"
proof -
  let ?u = "pow2 (expo64 a - 52)"
  have u: "0 < ?u" by simp
  have "\<bar>of_int (round_even (a / ?u)) - a / ?u\<bar> * ?u \<le> 1 / 2 * ?u"
    using round_even_err [of "a / ?u"] u by (intro mult_right_mono) simp_all
  moreover have "\<bar>of_int (round_even (a / ?u)) - a / ?u\<bar> * ?u
      = \<bar>(of_int (round_even (a / ?u)) - a / ?u) * ?u\<bar>"
    by (simp add: abs_mult)
  moreover have "(of_int (round_even (a / ?u)) - a / ?u) * ?u
      = of_int (round_even (a / ?u)) * ?u - a"
    by (simp add: left_diff_distrib)
  ultimately show ?thesis by (simp add: rn64_def Let_def pow2_half)
qed

lemma rn64_grid_fix:
  assumes "a = of_int k * pow2 (expo64 a - 52)"
  shows "rn64 a = a"
proof -
  have "a / pow2 (expo64 a - 52) = of_int k"
    using assms pow2_pos [of "expo64 a - 52"] by (simp add: field_simps)
  then have "rn64 a = of_int k * pow2 (expo64 a - 52)" by (simp add: rn64_def Let_def)
  with assms show ?thesis by simp
qed

lemma pow2_top: "pow2 (e + 1) = 2 ^ 53 * pow2 (e - 52)"
  using pow2_split [of "e - 52" "e + 1"] by simp

lemma pow2_bot: "pow2 e = 2 ^ 52 * pow2 (e - 52)"
  using pow2_split [of "e - 52" e] by simp

lemma rn64_le_top:
  assumes "0 < a"
  shows "rn64 a \<le> pow2 (expo64 a + 1)"
proof -
  let ?u = "pow2 (expo64 a - 52)"
  have "a / ?u \<le> pow2 (expo64 a + 1) / ?u"
    using expo64_upper [OF assms] by (intro divide_right_mono) simp_all
  also have "\<dots> = of_int (2 ^ 53)" by (simp add: pow2_top)
  finally have "round_even (a / ?u) \<le> round_even (of_int (2 ^ 53))" by (rule round_even_mono)
  then have "round_even (a / ?u) \<le> 2 ^ 53" by (simp only: round_even_of_int)
  then have "of_int (round_even (a / ?u)) \<le> (2 ^ 53 :: real)"
    by (metis of_int_le_iff of_int_numeral of_int_power)
  then have "of_int (round_even (a / ?u)) * ?u \<le> 2 ^ 53 * ?u"
    by (intro mult_right_mono) simp_all
  then show ?thesis by (simp add: rn64_def Let_def pow2_top)
qed

lemma rn64_ge_bot:
  assumes "pow2 (expo64 a) \<le> a"
  shows "pow2 (expo64 a) \<le> rn64 a"
proof -
  let ?u = "pow2 (expo64 a - 52)"
  have "pow2 (expo64 a) / ?u \<le> a / ?u"
    using assms by (intro divide_right_mono) simp_all
  moreover have "pow2 (expo64 a) / ?u = of_int (2 ^ 52)" by (simp add: pow2_bot [of "expo64 a"])
  ultimately have "round_even (of_int (2 ^ 52)) \<le> round_even (a / ?u)"
    by (intro round_even_mono) simp
  then have "2 ^ 52 \<le> round_even (a / ?u)" by (simp only: round_even_of_int)
  then have "(2 ^ 52 :: real) \<le> of_int (round_even (a / ?u))"
    by (metis of_int_le_iff of_int_numeral of_int_power)
  then have "2 ^ 52 * ?u \<le> of_int (round_even (a / ?u)) * ?u"
    by (intro mult_right_mono) simp_all
  then show ?thesis by (simp add: rn64_def Let_def pow2_bot [of "expo64 a"])
qed

lemma rn64_mono:
  assumes "0 \<le> a" "a \<le> b"
  shows "rn64 a \<le> rn64 b"
proof (cases "a = 0")
  case True
  with assms show ?thesis by (simp add: rn64_nonneg)
next
  case False
  with assms have a: "0 < a" and b: "0 < b" by simp_all
  show ?thesis
  proof (cases "expo64 a = expo64 b")
    case True
    let ?u = "pow2 (expo64 b - 52)"
    have "a / ?u \<le> b / ?u" using assms(2) by (intro divide_right_mono) simp_all
    then have "round_even (a / ?u) \<le> round_even (b / ?u)" by (rule round_even_mono)
    then have "of_int (round_even (a / ?u)) * ?u \<le> of_int (round_even (b / ?u)) * ?u"
      by (intro mult_right_mono) simp_all
    with True show ?thesis by (simp add: rn64_def Let_def)
  next
    case False
    with expo64_mono [OF a assms(2)] have lt: "expo64 a < expo64 b" by simp
    with expo64_ge [of a] have "- 1022 < expo64 b" by linarith
    from expo64_lower' [OF b this] have "pow2 (expo64 b) \<le> rn64 b" by (rule rn64_ge_bot)
    moreover have "pow2 (expo64 a + 1) \<le> pow2 (expo64 b)" using lt by (intro pow2_mono) simp
    ultimately show ?thesis using rn64_le_top [OF a] by linarith
  qed
qed

lemma rn64_idem:
  assumes "0 \<le> a"
  shows "rn64 (rn64 a) = rn64 a"
proof (cases "rn64 a = 0")
  case True
  then show ?thesis by simp
next
  case False
  with rn64_nonneg [OF assms] have v: "0 < rn64 a" by simp
  then have a: "0 < a" using assms by (cases "a = 0") simp_all
  let ?e = "expo64 a"
  let ?k = "round_even (a / pow2 (?e - 52))"
  have grid: "rn64 a = of_int ?k * pow2 (?e - 52)" by (simp add: rn64_def Let_def)
  show ?thesis
  proof (cases "rn64 a = pow2 (?e + 1)")
    case True
    have "expo64 (rn64 a) = ?e + 1"
      using v expo64_ge [of a] unfolding True
      by (intro expo64_eq) (simp_all add: pow2_less)
    moreover have "rn64 a = of_int (2 ^ 52) * pow2 (?e + 1 - 52)"
      unfolding True using pow2_bot [of "?e + 1"] by simp
    ultimately show ?thesis by (intro rn64_grid_fix [of _ "2 ^ 52"]) simp
  next
    case False
    with rn64_le_top [OF a] have top: "rn64 a < pow2 (?e + 1)" by simp
    have "expo64 (rn64 a) = ?e"
    proof (cases "pow2 ?e \<le> a")
      case True
      from rn64_ge_bot [OF this] top v expo64_ge [of a] show ?thesis by (intro expo64_eq) simp_all
    next
      case False
      then have e: "?e = - 1022" using expo64_lower' [OF a] expo64_ge [of a] by force
      show ?thesis
      proof (cases "rn64 a < pow2 (- 1022)")
        case True
        with v e show ?thesis by (simp add: expo64_small)
      next
        case False
        with v top e have "expo64 (rn64 a) = - 1022" by (intro expo64_eq) simp_all
        with e show ?thesis by simp
      qed
    qed
    with grid show ?thesis by (intro rn64_grid_fix [of _ ?k]) simp
  qed
qed


lemma fl64_0 [simp]: "fl64 0 = 0"
  by (simp add: fl64_def)

lemma fl64_minus: "fl64 (- z) = - fl64 z"
  by (simp add: fl64_def sgn_minus)

lemma fl64_nonneg_eq: "0 \<le> z \<Longrightarrow> fl64 z = rn64 z"
  by (cases "z = 0") (simp_all add: fl64_def)

lemma fl64_nonpos_eq: "z \<le> 0 \<Longrightarrow> fl64 z = - rn64 (- z)"
  using fl64_nonneg_eq [of "- z"] by (simp add: fl64_minus)

lemma fl64_nonneg: "0 \<le> z \<Longrightarrow> 0 \<le> fl64 z"
  by (simp add: fl64_nonneg_eq rn64_nonneg)

lemma fl64_nonpos: "z \<le> 0 \<Longrightarrow> fl64 z \<le> 0"
  by (simp add: fl64_nonpos_eq rn64_nonneg)

lemma fl64_mono:
  assumes "x \<le> y"
  shows "fl64 x \<le> fl64 y"
proof (cases "0 \<le> x")
  case True
  with assms show ?thesis by (simp add: fl64_nonneg_eq rn64_mono)
next
  case False
  show ?thesis
  proof (cases "y \<le> 0")
    case True
    with assms have "rn64 (- y) \<le> rn64 (- x)" by (intro rn64_mono) simp_all
    with True assms show ?thesis by (simp add: fl64_nonpos_eq)
  next
    case y: False
    from False have "fl64 x \<le> 0" by (intro fl64_nonpos) simp
    moreover from y have "0 \<le> fl64 y" by (intro fl64_nonneg) simp
    ultimately show ?thesis by linarith
  qed
qed

lemma fl64_idem [simp]: "fl64 (fl64 z) = fl64 z"
proof (cases "0 \<le> z")
  case True
  then show ?thesis by (simp add: fl64_nonneg_eq rn64_nonneg rn64_idem)
next
  case False
  then have z: "z \<le> 0" by simp
  then have "fl64 (fl64 z) = fl64 (- rn64 (- z))" by (simp add: fl64_nonpos_eq)
  also have "\<dots> = - rn64 (rn64 (- z))"
    using z by (simp add: fl64_minus fl64_nonneg_eq rn64_nonneg)
  also have "\<dots> = fl64 z" using z by (simp add: rn64_idem fl64_nonpos_eq)
  finally show ?thesis .
qed

lemma on_grid_0 [simp]: "on_grid 0"
  unfolding on_grid_def by (intro exI [of _ 0]) simp

lemma on_grid_minus: "on_grid z \<Longrightarrow> on_grid (- z)"
  unfolding on_grid_def
proof (elim exE)
  fix k :: int assume "z = of_int k * pow2 (- 1074)"
  then have "- z = of_int (- k) * pow2 (- 1074)" by simp
  then show "\<exists>k :: int. - z = of_int k * pow2 (- 1074)" ..
qed

lemma on_grid_add: "on_grid a \<Longrightarrow> on_grid b \<Longrightarrow> on_grid (a + b)"
  unfolding on_grid_def
proof (elim exE)
  fix k l :: int assume "a = of_int k * pow2 (- 1074)" "b = of_int l * pow2 (- 1074)"
  then have "a + b = of_int (k + l) * pow2 (- 1074)" by (simp add: distrib_right)
  then show "\<exists>k :: int. a + b = of_int k * pow2 (- 1074)" ..
qed

lemma on_grid_diff: "on_grid a \<Longrightarrow> on_grid b \<Longrightarrow> on_grid (a - b)"
  using on_grid_add [of a "- b"] by (simp add: on_grid_minus)

lemma on_grid_pos_ge:
  assumes "on_grid z" "0 < z"
  shows "pow2 (- 1074) \<le> z"
proof -
  from assms(1) obtain k :: int where k: "z = of_int k * pow2 (- 1074)"
    unfolding on_grid_def by blast
  with assms(2) have "0 < (of_int k :: real) * pow2 (- 1074)" by simp
  then have "0 < (of_int k :: real)" by (rule zero_less_mult_pos2) simp
  then have "1 \<le> (of_int k :: real)" by simp
  then have "1 * pow2 (- 1074) \<le> of_int k * pow2 (- 1074)" by (intro mult_right_mono) simp_all
  with k show ?thesis by simp
qed

lemma rn64_on_grid: "on_grid (rn64 a)"
proof -
  let ?e = "expo64 a - 52"
  have "- 1074 \<le> ?e" using expo64_ge [of a] by simp
  from pow2_split [OF this]
  have "rn64 a = of_int (round_even (a / pow2 ?e) * 2 ^ nat (?e + 1074)) * pow2 (- 1074)"
    by (simp add: rn64_def Let_def)
  then show ?thesis unfolding on_grid_def ..
qed

lemma fl64_on_grid: "on_grid (fl64 z)"
  by (cases "0 \<le> z") (simp_all add: fl64_nonneg_eq fl64_nonpos_eq rn64_on_grid on_grid_minus)

lemma rn64_exact_small:
  assumes "on_grid a" "0 \<le> a" "a < pow2 (- 1022)"
  shows "rn64 a = a"
proof (cases "a = 0")
  case True
  then show ?thesis by simp
next
  case False
  with assms have "expo64 a = - 1022" by (intro expo64_small) simp_all
  moreover from assms(1) obtain k :: int where "a = of_int k * pow2 (- 1074)"
    unfolding on_grid_def by blast
  ultimately show ?thesis by (intro rn64_grid_fix [of _ k]) simp
qed

lemma fl64_exact_small:
  assumes "on_grid z" "\<bar>z\<bar> < pow2 (- 1022)"
  shows "fl64 z = z"
proof (cases "0 \<le> z")
  case True
  with assms show ?thesis by (simp add: fl64_nonneg_eq rn64_exact_small)
next
  case False
  with assms on_grid_minus [of z] have "rn64 (- z) = - z" by (intro rn64_exact_small) simp_all
  with False show ?thesis by (simp add: fl64_nonpos_eq)
qed

lemma rn64_err_rel:
  assumes "pow2 (- 1022) \<le> a"
  shows "\<bar>rn64 a - a\<bar> \<le> a / 2 ^ 53"
proof -
  have "pow2 (expo64 a - 53) = pow2 (expo64 a) / 2 ^ 53"
    using pow2_split [of "expo64 a - 53" "expo64 a"] by simp
  also have "\<dots> \<le> a / 2 ^ 53"
    using expo64_lower [OF assms] by (intro divide_right_mono) simp_all
  finally show ?thesis using rn64_err [of a] by linarith
qed

lemma fl64_err_rel:
  assumes "pow2 (- 1022) \<le> \<bar>z\<bar>"
  shows "\<bar>fl64 z - z\<bar> \<le> \<bar>z\<bar> / 2 ^ 53"
proof (cases "0 \<le> z")
  case True
  with assms rn64_err_rel [of z] show ?thesis by (simp add: fl64_nonneg_eq)
next
  case False
  with assms rn64_err_rel [of "- z"] show ?thesis by (simp add: fl64_nonpos_eq)
qed

lemma fl64_pos:
  assumes "on_grid z" "0 < z"
  shows "0 < fl64 z"
proof -
  have "fl64 (pow2 (- 1074)) = pow2 (- 1074)"
  proof (rule fl64_exact_small)
    show "on_grid (pow2 (- 1074))" unfolding on_grid_def by (intro exI [of _ 1]) simp
    show "\<bar>pow2 (- 1074)\<bar> < pow2 (- 1022)" by (simp add: pow2_less)
  qed
  with fl64_mono [OF on_grid_pos_ge [OF assms]] pow2_pos [of "- 1074"] show ?thesis by linarith
qed

lemma fl64_neg:
  assumes "on_grid z" "z < 0"
  shows "fl64 z < 0"
  using fl64_pos [of "- z"] assms by (simp add: on_grid_minus fl64_minus)

lemma fl64_eval:
  assumes "0 < z" "- 1022 \<le> e" "pow2 e \<le> z" "z < pow2 (e + 1)"
  shows "fl64 z = of_int (round_even (z / pow2 (e - 52))) * pow2 (e - 52)"
  using assms by (simp add: fl64_nonneg_eq rn64_def Let_def expo64_eq [OF assms])

lemma fl64_of_int:
  assumes "\<bar>k\<bar> \<le> 2 ^ 53"
  shows "fl64 (of_int k) = of_int k"
proof -
  have pos: "rn64 (of_int j) = of_int j" if j: "0 < j" "j \<le> 2 ^ 53" for j :: int
  proof -
    let ?a = "of_int j :: real"
    have a1: "1 \<le> ?a" using j by simp
    have "pow2 (- 1022) \<le> pow2 0" by (intro pow2_mono) simp
    then have lo: "pow2 (- 1022) \<le> ?a" using a1 by (simp add: pow2_def)
    have "?a \<le> 2 ^ 53" using j(2) by (metis of_int_le_iff of_int_numeral of_int_power)
    then have hi: "?a \<le> pow2 53" using pow2_nat [of 53] by simp
    have e53: "expo64 ?a \<le> 53"
    proof (rule ccontr)
      assume "\<not> expo64 ?a \<le> 53"
      then have "pow2 53 < pow2 (expo64 ?a)" by (intro pow2_less) simp
      with expo64_lower [OF lo] hi show False by linarith
    qed
    show ?thesis
    proof (cases "expo64 ?a \<le> 52")
      case True
      from pow2_split [OF True] have "pow2 52 = 2 ^ nat (52 - expo64 ?a) * pow2 (expo64 ?a)" .
      moreover have "pow2 (expo64 ?a) = 2 ^ 52 * pow2 (expo64 ?a - 52)" by (rule pow2_bot)
      moreover have "pow2 52 = 2 ^ 52" using pow2_nat [of 52] by simp
      ultimately have "2 ^ nat (52 - expo64 ?a) * pow2 (expo64 ?a - 52) = 1" by simp
      then have "?a = of_int (j * 2 ^ nat (52 - expo64 ?a)) * pow2 (expo64 ?a - 52)"
        by (simp add: mult.assoc)
      then show ?thesis by (rule rn64_grid_fix)
    next
      case False
      with e53 have e: "expo64 ?a = 53" by simp
      with expo64_lower [OF lo] hi have "?a = pow2 53" by simp
      then have "?a = of_int (2 ^ 52) * pow2 (expo64 ?a - 52)"
        using pow2_bot [of 53] e by simp
      then show ?thesis by (rule rn64_grid_fix)
    qed
  qed
  show ?thesis
  proof (cases "0 < k")
    case True
    with assms pos [of k] show ?thesis by (simp add: fl64_nonneg_eq)
  next
    case False
    show ?thesis
    proof (cases "k = 0")
      case True
      then show ?thesis by simp
    next
      case k: False
      with False assms have "0 < - k" "- k \<le> 2 ^ 53" by simp_all
      from pos [OF this] False show ?thesis by (simp add: fl64_nonpos_eq)
    qed
  qed
qed

section \<open>Iterating a step over a scene\<close>

lemma funpow_map: "(map (f :: 'a \<Rightarrow> 'a) ^^ n) xs = map (f ^^ n) xs"
  by (induction n) simp_all

lemma animate_circles_funpow_nth:
  "i < length cs \<Longrightarrow>
   (animate_circles mouse width height ^^ n) cs ! i = (animate_circle mouse width height ^^ n) (cs ! i)"
proof -
  have "animate_circles mouse width height = map (animate_circle mouse width height)"
    by (rule ext) (simp add: animate_circles_def)
  then show "i < length cs \<Longrightarrow> ?thesis" by (simp add: funpow_map)
qed

lemma updateCircles_funpow_nth:
  "i < length cs \<Longrightarrow>
   (updateCircles mouse width height ^^ n) cs ! i = (updateCircles_body mouse width height ^^ n) (cs ! i)"
proof -
  have "updateCircles mouse width height = map (updateCircles_body mouse width height)"
    by (rule ext) (simp add: updateCircles_def)
  then show "i < length cs \<Longrightarrow> ?thesis" by (simp add: funpow_map)
qed

section \<open>What a step keeps\<close>

lemma Circle_update_fields [simp]:
  "c_radius (Circle_update width height c) = c_radius c"
  "c_velocity (Circle_update width height c) = c_velocity c"
  "c_isInteractive (Circle_update width height c) = c_isInteractive c"
  "c_color (Circle_update width height c) = c_color c"
  by (simp_all add: Circle_update_def Let_def)

lemma animate_circle_fields [simp]:
  "c_radius (animate_circle mouse width height c) = c_radius c"
  "c_velocity (animate_circle mouse width height c) = c_velocity c"
  "c_isInteractive (animate_circle mouse width height c) = c_isInteractive c"
  "c_color (animate_circle mouse width height c) = c_color c"
  by (simp_all add: animate_circle_def Let_def)

lemma updateCircles_body_fields [simp]:
  "g_radius (updateCircles_body mouse width height c) = g_radius c"
  "g_vx (updateCircles_body mouse width height c) = g_vx c"
  "g_vy (updateCircles_body mouse width height c) = g_vy c"
  "g_interactive (updateCircles_body mouse width height c) = g_interactive c"
  "g_color (updateCircles_body mouse width height c) = g_color c"
  by (simp_all add: updateCircles_body_def Let_def)

lemma animate_circle_funpow_keep:
  "c_radius ((animate_circle mouse width height ^^ n) c) = c_radius c
   \<and> c_velocity ((animate_circle mouse width height ^^ n) c) = c_velocity c
   \<and> c_isInteractive ((animate_circle mouse width height ^^ n) c) = c_isInteractive c"
  by (induction n) simp_all

lemma updateCircles_body_funpow_keep:
  "g_radius ((updateCircles_body mouse width height ^^ n) c) = g_radius c
   \<and> g_vx ((updateCircles_body mouse width height ^^ n) c) = g_vx c
   \<and> g_vy ((updateCircles_body mouse width height ^^ n) c) = g_vy c
   \<and> g_interactive ((updateCircles_body mouse width height ^^ n) c) = g_interactive c"
  by (induction n) simp_all

section \<open>Evaluating the rounding\<close>

lemma pow2_numeral [simp]: "pow2 (numeral n) = 2 ^ numeral n"
  by (simp add: pow2_def)

lemma pow2_neg_numeral [simp]: "pow2 (- numeral n) = 1 / 2 ^ numeral n"
  by (simp add: pow2_def powr_neg_numeral)

lemma pow2_0 [simp]: "pow2 0 = 1"
  by (simp add: pow2_def)

lemma pow2_minus_1 [simp]: "pow2 (- 1) = 1 / 2"
  by (simp add: pow2_def powr_minus_divide)

lemma fl64_numeral [simp]: "(numeral n :: int) \<le> 2 ^ 53 \<Longrightarrow> fl64 (numeral n) = numeral n"
  using fl64_of_int [of "numeral n"] by simp

lemma fl64_1 [simp]: "fl64 1 = 1"
  using fl64_of_int [of 1] by simp

lemma fl64_tenth: "fl64 0.1 = 3602879701896397 / 2 ^ 55"
  by (subst fl64_eval [where e = "- 4"]) (simp_all add: round_even_def Let_def)

lemma fl64_fifth: "fl64 0.2 = 3602879701896397 / 2 ^ 54"
  by (subst fl64_eval [where e = "- 3"]) (simp_all add: round_even_def Let_def)

lemma fl64_half [simp]: "fl64 (1 / 2) = 1 / 2"
  by (subst fl64_eval [where e = "- 1"]) (simp_all add: round_even_def Let_def)

lemma fl64_quarter [simp]: "fl64 (1 / 4) = 1 / 4"
  by (subst fl64_eval [where e = "- 2"]) (simp_all add: round_even_def Let_def)

lemma js_number_numeral [simp]: "(numeral n :: int) \<le> 2 ^ 53 \<Longrightarrow> js_number (numeral n)"
proof -
  assume n: "(numeral n :: int) \<le> 2 ^ 53"
  then have "(of_int (numeral n) :: real) \<le> of_int (2 ^ 53)" by (simp only: of_int_le_iff)
  then have "(numeral n :: real) \<le> 2 ^ 53" by simp
  also have "(2 ^ 53 :: real) \<le> 2 ^ 1000" by (intro power_increasing) simp_all
  finally show ?thesis using n by (simp add: js_number_def)
qed

lemma js_number_1 [simp]: "js_number 1"
  by (simp add: js_number_def)

lemma js_number_0 [simp]: "js_number 0"
  by (simp add: js_number_def)

lemma js_number_minus [simp]: "js_number (- x) = js_number x"
  by (auto simp: js_number_def fl64_minus)

lemma js_number_on_grid: "js_number x \<Longrightarrow> on_grid x"
  using fl64_on_grid [of x] by (simp add: js_number_def)

section \<open>Wrap-around\<close>

lemma fl64_le_rounded_up:
  assumes "on_grid z" "0 \<le> z"
  shows "fl64 z \<le> z * (1 + 1 / 2 ^ 52)"
proof (cases "z < pow2 (- 1022)")
  case True
  with assms have "fl64 z = z" by (intro fl64_exact_small) simp_all
  moreover have "z * 1 \<le> z * (1 + 1 / 2 ^ 52)" using assms(2) by (intro mult_left_mono) simp_all
  ultimately show ?thesis by simp
next
  case False
  with assms(2) have "\<bar>fl64 z - z\<bar> \<le> \<bar>z\<bar> / 2 ^ 53" by (intro fl64_err_rel) simp
  with assms(2) have "fl64 z \<le> z + z / 2 ^ 53" by linarith
  also have "\<dots> \<le> z + z / 2 ^ 52" using assms(2) by (simp add: field_simps)
  finally show ?thesis by (simp add: distrib_left)
qed

lemma fl64_le_imp:
  assumes "on_grid z" "0 \<le> w" "fl64 z \<le> w"
  shows "z \<le> w * (1 + 1 / 2 ^ 52)"
proof -
  have w: "w * 1 \<le> w * (1 + 1 / 2 ^ 52)" using assms(2) by (intro mult_left_mono) simp_all
  show ?thesis
  proof (cases "z < pow2 (- 1022)")
    case True
    show ?thesis
    proof (cases "0 \<le> z")
      case z: True
      with True assms(1) have "fl64 z = z" by (intro fl64_exact_small) simp_all
      with assms(3) w show ?thesis by simp
    next
      case False
      with assms(2) w show ?thesis by simp
    qed
  next
    case False
    then have z: "0 < z" using pow2_pos [of "- 1022"] by linarith
    from False z have "\<bar>fl64 z - z\<bar> \<le> \<bar>z\<bar> / 2 ^ 53" by (intro fl64_err_rel) simp
    with z assms(3) have "z - z / 2 ^ 53 \<le> w" by linarith
    then have "z * (1 - 1 / 2 ^ 53) \<le> w" by (simp add: right_diff_distrib)
    then have "z * (1 - 1 / 2 ^ 53) * (1 + 1 / 2 ^ 52) \<le> w * (1 + 1 / 2 ^ 52)"
      by (intro mult_right_mono) simp_all
    moreover have "z * 1 \<le> z * ((1 - 1 / 2 ^ 53) * (1 + 1 / 2 ^ 52))"
      using z by (intro mult_left_mono) simp_all
    ultimately show ?thesis by (simp add: mult.assoc)
  qed
qed

lemma wrap_axis_first:
  assumes "js_sub xa radius > extent"
  shows "wrap_axis extent radius xa = - radius"
  using assms by (simp add: wrap_axis_def js_add_def)

lemma wrap_axis_second:
  assumes "0 \<le> extent" "0 \<le> radius" "js_add xa radius < 0"
  shows "wrap_axis extent radius xa = js_add extent radius"
proof -
  have "xa + radius < 0"
  proof (rule ccontr)
    assume "\<not> xa + radius < 0"
    then have "0 \<le> fl64 (xa + radius)" by (intro fl64_nonneg) simp
    with assms(3) show False by (simp add: js_add_def)
  qed
  with assms(2) have "xa - radius \<le> 0" by simp
  then have "fl64 (xa - radius) \<le> 0" by (rule fl64_nonpos)
  with assms show ?thesis by (simp add: wrap_axis_def js_sub_def)
qed

lemma wrap_axis_neither:
  assumes "\<not> js_sub xa radius > extent" "\<not> js_add xa radius < 0"
  shows "wrap_axis extent radius xa = xa"
  using assms by (simp add: wrap_axis_def)

lemma wrap_axis_wraps:
  assumes "0 \<le> extent" "0 \<le> radius" "on_grid radius" "on_grid xa"
  shows "wraps_axis extent radius xa (wrap_axis extent radius xa)"
proof -
  have d: "on_grid (xa - radius)" and a: "on_grid (xa + radius)"
    using assms(3,4) by (simp_all add: on_grid_diff on_grid_add)
  have far: "js_sub xa radius > extent" if "xa - radius > extent * (1 + 1 / 2 ^ 52)"
    using that fl64_le_imp [OF d assms(1)] unfolding js_sub_def by fastforce
  have neg: "js_add xa radius < 0" if "xa + radius < 0"
    using that fl64_neg [OF a] by (simp add: js_add_def)
  show ?thesis
    unfolding wraps_axis_def
    using wrap_axis_first [where extent = extent and xa = xa and radius = radius]
      wrap_axis_second [OF assms(1,2), where xa = xa]
      wrap_axis_neither [where extent = extent and xa = xa and radius = radius] far neg
    by blast
qed

lemma wrap_axis_near:
  assumes "0 \<le> extent" "0 \<le> radius" "on_grid extent" "on_grid radius" "on_grid xa"
  shows "- radius \<le> wrap_axis extent radius xa
       \<and> wrap_axis extent radius xa \<le> (extent + radius) * (1 + 1 / 2 ^ 52)"
proof -
  have d: "on_grid (xa - radius)" and a: "on_grid (xa + radius)"
    and s: "on_grid (extent + radius)"
    using assms(3,4,5) by (simp_all add: on_grid_diff on_grid_add)
  have top: "0 \<le> (extent + radius) * (1 + 1 / 2 ^ 52)" using assms(1,2) by simp
  consider (first) "js_sub xa radius > extent"
    | (second) "js_add xa radius < 0"
    | (neither) "\<not> js_sub xa radius > extent" "\<not> js_add xa radius < 0" by blast
  then show ?thesis
  proof cases
    case first
    from wrap_axis_first [OF this] assms(2) top show ?thesis by simp
  next
    case second
    have "0 \<le> fl64 (extent + radius)" using assms(1,2) by (intro fl64_nonneg) simp
    moreover have "fl64 (extent + radius) \<le> (extent + radius) * (1 + 1 / 2 ^ 52)"
      using assms(1,2) by (intro fl64_le_rounded_up s) simp
    ultimately show ?thesis
      using wrap_axis_second [OF assms(1,2) second] assms(2) by (simp add: js_add_def)
  next
    case neither
    have "0 \<le> xa + radius"
    proof (rule ccontr)
      assume "\<not> 0 \<le> xa + radius"
      then have "fl64 (xa + radius) < 0" by (intro fl64_neg a) simp
      with neither(2) show False by (simp add: js_add_def)
    qed
    moreover have "xa - radius \<le> extent * (1 + 1 / 2 ^ 52)"
      using neither(1) by (intro fl64_le_imp d assms(1)) (simp add: js_sub_def)
    moreover have "radius * 1 \<le> radius * (1 + 1 / 2 ^ 52)"
      using assms(2) by (intro mult_left_mono) simp_all
    ultimately show ?thesis
      using wrap_axis_neither [OF neither] by (simp add: distrib_right)
  qed
qed

lemma Circle_update_wrap:
  "c_x (Circle_update width height c)
     = wrap_axis width (c_radius c) (js_add (c_x c) (fst (c_velocity c)))"
  "c_y (Circle_update width height c)
     = wrap_axis height (c_radius c) (js_add (c_y c) (snd (c_velocity c)))"
  by (simp_all add: Circle_update_def wrap_axis_def Let_def)

lemma updateCircles_body_wrap:
  "\<not> g_interactive c \<Longrightarrow> g_x (updateCircles_body mouse width height c)
     = wrap_axis width (g_radius c) (js_add (g_x c) (g_vx c))"
  "\<not> g_interactive c \<Longrightarrow> g_y (updateCircles_body mouse width height c)
     = wrap_axis height (g_radius c) (js_add (g_y c) (g_vy c))"
  by (simp_all add: updateCircles_body_def wrap_axis_def Let_def)

lemma inside_near: "0 \<le> width \<Longrightarrow> 0 \<le> height \<Longrightarrow> 0 \<le> radius \<Longrightarrow>
  in_wrap_rect width height radius p \<Longrightarrow> near_wrap_rect width height radius p"
proof -
  assume h: "0 \<le> width" "0 \<le> height" "0 \<le> radius" "in_wrap_rect width height radius p"
  have "(width + radius) * 1 \<le> (width + radius) * (1 + 1 / 2 ^ 52)"
    "(height + radius) * 1 \<le> (height + radius) * (1 + 1 / 2 ^ 52)"
    using h(1-3) by (intro mult_left_mono; simp)+
  with h(4) show ?thesis by (simp add: in_wrap_rect_def near_wrap_rect_def)
qed


lemma js_add_on_grid [simp]: "on_grid (js_add a b)"
  by (simp add: js_add_def fl64_on_grid)

lemma Circle_update_near:
  assumes "js_number width" "js_number height" "0 \<le> width" "0 \<le> height"
    "js_number (c_radius c)" "0 \<le> c_radius c"
  shows "c_near_inside width height (Circle_update width height c)"
  using wrap_axis_near [OF assms(3,6) js_number_on_grid [OF assms(1)] js_number_on_grid [OF assms(5)],
      of "js_add (c_x c) (fst (c_velocity c))"]
    wrap_axis_near [OF assms(4,6) js_number_on_grid [OF assms(2)] js_number_on_grid [OF assms(5)],
      of "js_add (c_y c) (snd (c_velocity c))"]
  by (simp add: c_near_inside_def near_wrap_rect_def Circle_update_wrap)

lemma updateCircles_body_near:
  assumes "js_number width" "js_number height" "0 \<le> width" "0 \<le> height"
    "js_number (g_radius c)" "0 \<le> g_radius c" "\<not> g_interactive c"
  shows "g_near_inside width height (updateCircles_body mouse width height c)"
  using wrap_axis_near [OF assms(3,6) js_number_on_grid [OF assms(1)] js_number_on_grid [OF assms(5)],
      of "js_add (g_x c) (g_vx c)"]
    wrap_axis_near [OF assms(4,6) js_number_on_grid [OF assms(2)] js_number_on_grid [OF assms(5)],
      of "js_add (g_y c) (g_vy c)"]
    assms(7)
  by (simp add: g_near_inside_def near_wrap_rect_def updateCircles_body_wrap)

lemma Circle_update_teleports:
  assumes "0 \<le> width" "0 \<le> height" "js_number (c_radius c)" "0 \<le> c_radius c"
  shows "c_teleports width height c (Circle_update width height c)"
  using wrap_axis_wraps [OF assms(1,4) js_number_on_grid [OF assms(3)],
      of "js_add (c_x c) (fst (c_velocity c))"]
    wrap_axis_wraps [OF assms(2,4) js_number_on_grid [OF assms(3)],
      of "js_add (c_y c) (snd (c_velocity c))"]
  by (simp add: c_teleports_def Circle_update_wrap)

lemma updateCircles_body_teleports:
  assumes "0 \<le> width" "0 \<le> height" "js_number (g_radius c)" "0 \<le> g_radius c"
    "\<not> g_interactive c"
  shows "g_teleports width height c (updateCircles_body mouse width height c)"
  using wrap_axis_wraps [OF assms(1,4) js_number_on_grid [OF assms(3)],
      of "js_add (g_x c) (g_vx c)"]
    wrap_axis_wraps [OF assms(2,4) js_number_on_grid [OF assms(3)],
      of "js_add (g_y c) (g_vy c)"]
    assms(5)
  by (simp add: g_teleports_def updateCircles_body_wrap)

lemma html_wrap:
  assumes "js_number width" "js_number height" "0 \<le> width" "0 \<le> height"
    and "i < length cs" "\<not> c_isInteractive (cs ! i)" "c_numbers (cs ! i)"
        "0 \<le> c_radius (cs ! i)" "c_inside width height (cs ! i)"
  shows "c_near_inside width height ((animate_circles mouse width height ^^ n) cs ! i)
       \<and> c_teleports width height ((animate_circles mouse width height ^^ n) cs ! i)
            ((animate_circles mouse width height ^^ Suc n) cs ! i)"
proof -
  let ?f = "animate_circle mouse width height"
  have keep: "c_radius ((?f ^^ m) (cs ! i)) = c_radius (cs ! i)"
    "c_isInteractive ((?f ^^ m) (cs ! i)) = c_isInteractive (cs ! i)" for m
    using animate_circle_funpow_keep [where mouse = mouse and width = width and height = height
        and n = m and c = "cs ! i"] by simp_all
  have r: "js_number (c_radius (cs ! i))" using assms(7) by (simp add: c_numbers_def)
  have step: "(?f ^^ Suc m) (cs ! i) = Circle_update width height ((?f ^^ m) (cs ! i))" for m
    using keep [of m] assms(6) by (simp add: animate_circle_def)
  have near: "c_near_inside width height ((?f ^^ m) (cs ! i))" for m
  proof (cases m)
    case 0
    with assms(3,4,8,9) show ?thesis
      by (simp add: c_near_inside_def c_inside_def inside_near)
  next
    case (Suc k)
    have "c_near_inside width height (Circle_update width height ((?f ^^ k) (cs ! i)))"
      using assms(1-4,8) r keep [of k] by (intro Circle_update_near) simp_all
    with Suc step [of k] show ?thesis by simp
  qed
  have "c_teleports width height ((?f ^^ n) (cs ! i)) (Circle_update width height ((?f ^^ n) (cs ! i)))"
    using assms(3,4,8) r keep [of n] by (intro Circle_update_teleports) simp_all
  with near [of n] step [of n] assms(5) show ?thesis
    by (simp add: animate_circles_funpow_nth del: funpow.simps)
qed

lemma gl_wrap:
  assumes "js_number width" "js_number height" "0 \<le> width" "0 \<le> height"
    and "j < length gs" "\<not> g_interactive (gs ! j)" "g_numbers (gs ! j)"
        "0 \<le> g_radius (gs ! j)" "g_inside width height (gs ! j)"
  shows "g_near_inside width height ((updateCircles mouse width height ^^ n) gs ! j)
       \<and> g_teleports width height ((updateCircles mouse width height ^^ n) gs ! j)
            ((updateCircles mouse width height ^^ Suc n) gs ! j)"
proof -
  let ?f = "updateCircles_body mouse width height"
  have keep: "g_radius ((?f ^^ m) (gs ! j)) = g_radius (gs ! j)"
    "g_interactive ((?f ^^ m) (gs ! j)) = g_interactive (gs ! j)" for m
    using updateCircles_body_funpow_keep [where mouse = mouse and width = width and height = height
        and n = m and c = "gs ! j"] by simp_all
  have r: "js_number (g_radius (gs ! j))" using assms(7) by (simp add: g_numbers_def)
  have step: "(?f ^^ Suc m) (gs ! j) = ?f ((?f ^^ m) (gs ! j))" for m by simp
  have near: "g_near_inside width height ((?f ^^ m) (gs ! j))" for m
  proof (cases m)
    case 0
    with assms(3,4,8,9) show ?thesis
      by (simp add: g_near_inside_def g_inside_def inside_near)
  next
    case (Suc k)
    have "g_near_inside width height (?f ((?f ^^ k) (gs ! j)))"
      using assms(1-4,6,8) r keep [of k] by (intro updateCircles_body_near) simp_all
    with Suc show ?thesis by simp
  qed
  have "g_teleports width height ((?f ^^ n) (gs ! j)) (?f ((?f ^^ n) (gs ! j)))"
    using assms(3,4,6,8) r keep [of n] by (intro updateCircles_body_teleports) simp_all
  with near [of n] step [of n] assms(5) show ?thesis
    by (simp add: updateCircles_funpow_nth del: funpow.simps)
qed

text \<open>
  Claim C1, amended. For an ambient blob whose numbers are doubles (of magnitude at most
  \<open>2\<^sup>1\<^sup>0\<^sup>0\<^sup>0\<close>), of radius at least zero, in a viewport whose width and height are such
  doubles and at least zero, and whose position lies within
  \<open>[-radius, width + radius] \<times> [-radius, height + radius]\<close>: after any number of simulation
  steps the position lies within \<open>[-radius, (width + radius) (1 + 2\<^sup>-\<^sup>5\<^sup>2)] \<times>
  [-radius, (height + radius) (1 + 2\<^sup>-\<^sup>5\<^sup>2)]\<close>; and in each step, per axis, when after
  the add the rounded difference \<open>x - radius\<close> exceeds the width (in particular when the
  exact difference exceeds \<open>width (1 + 2\<^sup>-\<^sup>5\<^sup>2)\<close>) the blob is at \<open>x = -radius\<close> after that step,
  when the sum \<open>x + radius\<close> is negative it is at the rounded \<open>width + radius\<close>, and otherwise
  it stays where the add put it; likewise for \<open>y\<close> and the height. In both components.
\<close>

theorem wrap_invariant:
  assumes "js_number width" "js_number height" "0 \<le> width" "0 \<le> height"
    and "i < length cs" "\<not> c_isInteractive (cs ! i)" "c_numbers (cs ! i)"
        "0 \<le> c_radius (cs ! i)" "c_inside width height (cs ! i)"
    and "j < length gs" "\<not> g_interactive (gs ! j)" "g_numbers (gs ! j)"
        "0 \<le> g_radius (gs ! j)" "g_inside width height (gs ! j)"
  shows "c_near_inside width height ((animate_circles mouse width height ^^ n) cs ! i)
       \<and> c_teleports width height ((animate_circles mouse width height ^^ n) cs ! i)
            ((animate_circles mouse width height ^^ Suc n) cs ! i)
       \<and> g_near_inside width height ((updateCircles mouse width height ^^ n) gs ! j)
       \<and> g_teleports width height ((updateCircles mouse width height ^^ n) gs ! j)
            ((updateCircles mouse width height ^^ Suc n) gs ! j)"
  using html_wrap [OF assms(1-9)] gl_wrap [OF assms(1-4,10-14)] by blast

text \<open>The sample scenes in a viewport of 100 by 100: the first blob crosses the right
  boundary in the first step and lands at \<open>x = -40\<close>.\<close>

theorem wrap_invariant_witness:
  "c_inside 100 100 (sample_circles ! 0) \<and> g_inside 100 100 (sample_gcircles ! 0)
   \<and> c_numbers (sample_circles ! 0) \<and> g_numbers (sample_gcircles ! 0)
   \<and> js_sub (js_add (c_x (sample_circles ! 0)) (fst (c_velocity (sample_circles ! 0))))
        (c_radius (sample_circles ! 0)) > 100
   \<and> c_near_inside 100 100 ((animate_circles (50, 50) 100 100 ^^ 0) sample_circles ! 0)
   \<and> c_x ((animate_circles (50, 50) 100 100 ^^ Suc 0) sample_circles ! 0) = - 40
   \<and> g_near_inside 100 100 ((updateCircles (50, 50) 100 100 ^^ 0) sample_gcircles ! 0)
   \<and> g_x ((updateCircles (50, 50) 100 100 ^^ Suc 0) sample_gcircles ! 0) = - 40"
proof -
  have w: "js_number 100" "(0 :: real) \<le> 100" by simp_all
  have h: "0 < length sample_circles" "\<not> c_isInteractive (sample_circles ! 0)"
    "c_numbers (sample_circles ! 0)"
    "0 \<le> c_radius (sample_circles ! 0)" "c_inside 100 100 (sample_circles ! 0)"
    "0 < length sample_gcircles" "\<not> g_interactive (sample_gcircles ! 0)"
    "g_numbers (sample_gcircles ! 0)"
    "0 \<le> g_radius (sample_gcircles ! 0)" "g_inside 100 100 (sample_gcircles ! 0)"
    by (simp_all add: sample_circles_def sample_gcircles_def c_inside_def g_inside_def
        in_wrap_rect_def c_numbers_def g_numbers_def)
  have pre: "js_sub (js_add (c_x (sample_circles ! 0)) (fst (c_velocity (sample_circles ! 0))))
        (c_radius (sample_circles ! 0)) > 100"
    "c_radius (sample_circles ! 0) = 40"
    "js_sub (js_add (g_x (sample_gcircles ! 0)) (g_vx (sample_gcircles ! 0)))
        (g_radius (sample_gcircles ! 0)) > 100"
    "g_radius (sample_gcircles ! 0) = 40"
    by (simp_all add: sample_circles_def sample_gcircles_def js_add_def js_sub_def)
  from wrap_invariant [OF w(1) w(1) w(2) w(2) h, where mouse = "(50, 50)" and n = 0] pre h(3,5,8,10)
  show ?thesis
    unfolding c_teleports_def g_teleports_def wraps_axis_def by (simp del: funpow.simps)
qed

text \<open>
  Claim C1 as stated fails by one rounding. In a viewport of 301 by 601 the blob of
  \<open>edge_circles\<close> has the radius \<^verbatim>\<open>(301 + 601) * 0.2\<close> and lies within the rectangle. The add
  puts it at \<open>x = 8468878361781863 / 2\<^sup>4\<^sup>4\<close>, where \<open>x - radius\<close> is \<open>301 + 2\<^sup>-\<^sup>4\<^sup>5\<close>, past the
  width; the difference rounds to \<open>301\<close>, the test \<^verbatim>\<open>x - radius > width\<close> is false, and the blob
  ends the step at \<open>x > width + radius\<close>, outside the rectangle and not teleported. In both
  components.
\<close>

theorem wrap_overshoots_by_rounding:
  "c_radius (edge_circles ! 0) = js_mul (js_add 301 601) (fl64 0.2)
   \<and> \<not> c_isInteractive (edge_circles ! 0)
   \<and> c_inside 301 601 (edge_circles ! 0)
   \<and> js_add (c_x (edge_circles ! 0)) (fst (c_velocity (edge_circles ! 0)))
        - c_radius (edge_circles ! 0) > 301
   \<and> c_x (animate_circles (0, 0) 301 601 edge_circles ! 0) \<noteq> - c_radius (edge_circles ! 0)
   \<and> c_x (animate_circles (0, 0) 301 601 edge_circles ! 0) > 301 + c_radius (edge_circles ! 0)
   \<and> \<not> c_inside 301 601 (animate_circles (0, 0) 301 601 edge_circles ! 0)
   \<and> \<not> g_interactive (edge_gcircles ! 0)
   \<and> g_inside 301 601 (edge_gcircles ! 0)
   \<and> g_x (updateCircles (0, 0) 301 601 edge_gcircles ! 0) > 301 + g_radius (edge_gcircles ! 0)
   \<and> \<not> g_inside 301 601 (updateCircles (0, 0) 301 601 edge_gcircles ! 0)"
proof -
  define R :: real where "R = 6347260724825293 / 2 ^ 45"
  define X :: real where "X = 8460082268759655 / 2 ^ 44"
  define X1 :: real where "X1 = 8468878361781863 / 2 ^ 44"
  have r: "js_mul (js_add 301 601) (fl64 0.2) = R"
    unfolding js_mul_def js_add_def fl64_fifth R_def
    by (simp, subst fl64_eval [where e = 7]) (simp_all add: round_even_def Let_def)
  have a: "js_add X (1 / 2) = X1"
    unfolding js_add_def X_def X1_def
    by (simp, subst fl64_eval [where e = 8]) (simp_all add: round_even_def Let_def)
  have b: "js_sub X1 R = 301"
    unfolding js_sub_def X1_def R_def
    by (simp, subst fl64_eval [where e = 8]) (simp_all add: round_even_def Let_def)
  have c: "\<not> js_add X1 R < 0"
  proof -
    have "0 \<le> fl64 (X1 + R)" by (intro fl64_nonneg) (simp add: X1_def R_def)
    then show ?thesis by (simp add: js_add_def)
  qed
  have y: "js_add 100 0 = 100" by (simp add: js_add_def)
  have y1: "\<not> js_sub 100 R > 601"
  proof -
    have "fl64 (100 - R) \<le> 0" by (intro fl64_nonpos) (simp add: R_def)
    then show ?thesis by (simp add: js_sub_def)
  qed
  have y2: "\<not> js_add 100 R < 0"
  proof -
    have "0 \<le> fl64 (100 + R)" by (intro fl64_nonneg) (simp add: R_def)
    then show ?thesis by (simp add: js_add_def)
  qed
  have c0: "edge_circles ! 0 = \<lparr>c_x = X, c_y = 100, c_radius = R, c_color = ''18, 113, 255'',
      c_velocity = (1 / 2, 0), c_isInteractive = False\<rparr>"
    by (simp add: edge_circles_def X_def R_def)
  have g0: "edge_gcircles ! 0 = \<lparr>g_x = X, g_y = 100, g_radius = R,
      g_color = (js_div 18 255, js_div 113 255, 1), g_vx = 1 / 2, g_vy = 0, g_interactive = False\<rparr>"
    by (simp add: edge_gcircles_def X_def R_def)
  have len: "length edge_circles = 1" "length edge_gcircles = 1"
    by (simp_all add: edge_circles_def edge_gcircles_def)
  have c1: "animate_circles (0, 0) 301 601 edge_circles ! 0
      = Circle_update 301 601 (edge_circles ! 0)"
    using len(1) by (simp add: animate_circles_def animate_circle_def c0)
  have g1: "updateCircles (0, 0) 301 601 edge_gcircles ! 0
      = updateCircles_body (0, 0) 301 601 (edge_gcircles ! 0)"
    using len(2) by (simp add: updateCircles_def)
  have cx: "c_x (Circle_update 301 601 (edge_circles ! 0)) = X1"
    "c_y (Circle_update 301 601 (edge_circles ! 0)) = 100"
    "c_radius (Circle_update 301 601 (edge_circles ! 0)) = R"
    by (simp_all add: Circle_update_wrap wrap_axis_def c0 a b c y y1 y2)
  have gx: "g_x (updateCircles_body (0, 0) 301 601 (edge_gcircles ! 0)) = X1"
    "g_y (updateCircles_body (0, 0) 301 601 (edge_gcircles ! 0)) = 100"
    "g_radius (updateCircles_body (0, 0) 301 601 (edge_gcircles ! 0)) = R"
    by (simp_all add: updateCircles_body_wrap wrap_axis_def g0 a b c y y1 y2)
  have cmp: "- R \<le> X" "X \<le> 301 + R" "X1 - R > 301" "X1 \<noteq> - R" "X1 > 301 + R"
    "- R \<le> 100" "100 \<le> 601 + R"
    by (simp_all add: X_def X1_def R_def)
  have rad: "c_radius (edge_circles ! 0) = R" by (simp add: c0)
  have "c_radius (edge_circles ! 0) = js_mul (js_add 301 601) (fl64 0.2)"
    unfolding rad r by (rule refl)
  moreover have "\<not> c_isInteractive (edge_circles ! 0)" "\<not> g_interactive (edge_gcircles ! 0)"
    by (simp_all add: c0 g0)
  moreover have "c_inside 301 601 (edge_circles ! 0)" "g_inside 301 601 (edge_gcircles ! 0)"
    using cmp by (simp_all add: c0 g0 c_inside_def g_inside_def in_wrap_rect_def)
  moreover have "js_add (c_x (edge_circles ! 0)) (fst (c_velocity (edge_circles ! 0)))
        - c_radius (edge_circles ! 0) > 301"
    using cmp(3) by (simp add: c0 a)
  moreover have "c_x (animate_circles (0, 0) 301 601 edge_circles ! 0) \<noteq> - c_radius (edge_circles ! 0)"
    "c_x (animate_circles (0, 0) 301 601 edge_circles ! 0) > 301 + c_radius (edge_circles ! 0)"
    "g_x (updateCircles (0, 0) 301 601 edge_gcircles ! 0) > 301 + g_radius (edge_gcircles ! 0)"
    using cmp(4,5) unfolding c1 g1 cx gx by (simp_all add: c0 g0)
  moreover have "\<not> c_inside 301 601 (animate_circles (0, 0) 301 601 edge_circles ! 0)"
    "\<not> g_inside 301 601 (updateCircles (0, 0) 301 601 edge_gcircles ! 0)"
    using cmp(5) unfolding c1 g1 c_inside_def g_inside_def in_wrap_rect_def cx gx by simp_all
  ultimately show ?thesis by blast
qed

section \<open>The interactive blob\<close>

lemma fl64_err_small:
  assumes "0 \<le> z" "z < pow2 (- 1022)"
  shows "\<bar>fl64 z - z\<bar> \<le> pow2 (- 1075)"
proof (cases "z = 0")
  case True
  then show ?thesis by simp
next
  case False
  with assms have "expo64 z = - 1022" by (intro expo64_small) simp_all
  with rn64_err [of z] assms(1) show ?thesis by (simp add: fl64_nonneg_eq)
qed

lemma follow_increment_le:
  assumes "on_grid g" "0 < g"
  shows "fl64 (fl64 g * fl64 0.1) \<le> g"
proof -
  have d: "fl64 g \<le> 2 * g"
  proof (cases "g < pow2 (- 1022)")
    case True
    with assms have "fl64 g = g" by (intro fl64_exact_small) simp_all
    with assms(2) show ?thesis by simp
  next
    case False
    with assms(2) have "\<bar>fl64 g - g\<bar> \<le> \<bar>g\<bar> / 2 ^ 53" by (intro fl64_err_rel) simp
    moreover have "g / 2 ^ 53 \<le> g" using assms(2) by (simp add: field_simps)
    ultimately show ?thesis using assms(2) by linarith
  qed
  have d0: "0 \<le> fl64 g" using assms(2) by (intro fl64_nonneg) simp
  let ?p = "fl64 g * fl64 0.1"
  have p0: "0 \<le> ?p" using d0 by (simp add: fl64_tenth)
  have "?p \<le> (2 * g) * fl64 0.1" using d by (intro mult_right_mono) (simp_all add: fl64_tenth)
  then have p: "?p \<le> g / 4" using assms(2) by (simp add: fl64_tenth field_simps)
  show ?thesis
  proof (cases "?p < pow2 (- 1022)")
    case True
    from fl64_err_small [OF p0 True] have "fl64 ?p \<le> ?p + pow2 (- 1075)" by linarith
    moreover have "pow2 (- 1074) = 2 * pow2 (- 1075)"
      using pow2_split [of "- 1075" "- 1074"] by simp
    ultimately show ?thesis using p on_grid_pos_ge [OF assms] assms(2) by linarith
  next
    case False
    with p0 have "\<bar>fl64 ?p - ?p\<bar> \<le> \<bar>?p\<bar> / 2 ^ 53" by (intro fl64_err_rel) simp
    moreover have "?p / 2 ^ 53 \<le> ?p" using p0 by (simp add: field_simps)
    ultimately have "fl64 ?p \<le> 2 * ?p" using p0 by linarith
    with p assms(2) show ?thesis by linarith
  qed
qed

lemma follow_up:
  assumes "fl64 x = x" "fl64 m = m" "x \<le> m"
  shows "x \<le> js_add x (js_mul (js_sub m x) (fl64 0.1))
       \<and> js_add x (js_mul (js_sub m x) (fl64 0.1)) \<le> m"
proof (cases "x = m")
  case True
  with assms show ?thesis by (simp add: js_add_def js_mul_def js_sub_def)
next
  case False
  with assms(3) have g: "0 < m - x" by simp
  have grid: "on_grid (m - x)"
    using fl64_on_grid [of x] fl64_on_grid [of m] assms(1,2) by (simp add: on_grid_diff)
  let ?t = "fl64 (fl64 (m - x) * fl64 0.1)"
  have "0 \<le> fl64 (m - x)" using g by (intro fl64_nonneg) simp
  then have t0: "0 \<le> ?t" by (intro fl64_nonneg) (simp add: fl64_tenth)
  have t: "?t \<le> m - x" by (rule follow_increment_le [OF grid g])
  have "fl64 x \<le> fl64 (x + ?t)" using t0 by (intro fl64_mono) simp
  moreover have "fl64 (x + ?t) \<le> fl64 m" using t by (intro fl64_mono) simp
  ultimately show ?thesis using assms(1,2) by (simp add: js_add_def js_mul_def js_sub_def)
qed

lemma follow_negate:
  "js_add (- x) (js_mul (js_sub (- m) (- x)) (fl64 0.1))
     = - js_add x (js_mul (js_sub m x) (fl64 0.1))"
proof -
  have "js_sub (- m) (- x) = - js_sub m x"
    using fl64_minus [of "m - x"] by (simp add: js_sub_def)
  then have "js_mul (js_sub (- m) (- x)) (fl64 0.1) = - js_mul (js_sub m x) (fl64 0.1)"
    using fl64_minus [of "js_sub m x * fl64 0.1"] by (simp add: js_mul_def)
  then show ?thesis
    using fl64_minus [of "x + js_mul (js_sub m x) (fl64 0.1)"] by (simp add: js_add_def)
qed

lemma follow_down:
  assumes "fl64 x = x" "fl64 m = m" "m \<le> x"
  shows "m \<le> js_add x (js_mul (js_sub m x) (fl64 0.1))
       \<and> js_add x (js_mul (js_sub m x) (fl64 0.1)) \<le> x"
proof -
  have "fl64 (- x) = - x" "fl64 (- m) = - m" using assms(1,2) by (simp_all add: fl64_minus)
  from follow_up [OF this] assms(3) show ?thesis by (simp add: follow_negate)
qed

lemma follow_follows:
  assumes "fl64 x = x" "fl64 m = m"
  shows "follows_axis m x (js_add x (js_mul (js_sub m x) (fl64 0.1)))"
  unfolding follows_axis_def
  using follow_up [OF assms] follow_down [OF assms] by force

lemma follow_js_number:
  assumes "js_number x" "js_number m"
  shows "js_number (js_add x (js_mul (js_sub m x) (fl64 0.1)))"
proof -
  let ?x' = "js_add x (js_mul (js_sub m x) (fl64 0.1))"
  have d: "fl64 x = x" "fl64 m = m" using assms by (simp_all add: js_number_def)
  have "\<bar>?x'\<bar> \<le> max \<bar>x\<bar> \<bar>m\<bar>"
  proof (cases "x \<le> m")
    case True
    from follow_up [OF d this] show ?thesis by linarith
  next
    case False
    then have "m \<le> x" by simp
    from follow_down [OF d this] show ?thesis by linarith
  qed
  moreover have "max \<bar>x\<bar> \<bar>m\<bar> \<le> 2 ^ 1000" using assms by (simp add: js_number_def)
  ultimately have "\<bar>?x'\<bar> \<le> 2 ^ 1000" by linarith
  moreover have "fl64 ?x' = ?x'" by (simp add: js_add_def)
  ultimately show ?thesis by (simp add: js_number_def)
qed

lemma follows_axis_closer:
  assumes "follows_axis m x x'"
  shows "\<bar>m - x'\<bar> \<le> \<bar>m - x\<bar>"
proof (cases "x \<le> m")
  case True
  with assms have "x \<le> x'" "x' \<le> m" by (simp_all add: follows_axis_def)
  then show ?thesis by linarith
next
  case False
  with assms have "m \<le> x'" "x' \<le> x" by (simp_all add: follows_axis_def)
  then show ?thesis by linarith
qed

lemma gl_length_mono:
  assumes "\<bar>a'\<bar> \<le> \<bar>a\<bar>" "\<bar>b'\<bar> \<le> \<bar>b\<bar>"
  shows "gl_length (a', b') \<le> gl_length (a, b)"
proof -
  have "a' * a' \<le> a * a" "b' * b' \<le> b * b"
    using assms by (simp_all add: abs_le_square_iff power2_eq_square)
  then show ?thesis by (simp add: gl_length_def add_mono)
qed


lemma animate_circle_follow:
  assumes "c_isInteractive c"
  shows "c_x (animate_circle mouse width height c)
           = js_add (c_x c) (js_mul (js_sub (fst mouse) (c_x c)) (fl64 0.1))"
    and "c_y (animate_circle mouse width height c)
           = js_add (c_y c) (js_mul (js_sub (snd mouse) (c_y c)) (fl64 0.1))"
  using assms by (simp_all add: animate_circle_def Let_def)

lemma updateCircles_body_follow:
  assumes "g_interactive c"
  shows "g_x (updateCircles_body mouse width height c)
           = js_add (g_x c) (js_mul (js_sub (fst mouse) (g_x c)) (fl64 0.1))"
    and "g_y (updateCircles_body mouse width height c)
           = js_add (g_y c) (js_mul (js_sub (snd mouse) (g_y c)) (fl64 0.1))"
  using assms by (simp_all add: updateCircles_body_def Let_def)

lemma animate_circle_funpow_numbers:
  assumes "c_isInteractive c" "js_number (c_x c)" "js_number (c_y c)"
    "js_number (fst mouse)" "js_number (snd mouse)"
  shows "c_isInteractive ((animate_circle mouse width height ^^ n) c)
       \<and> js_number (c_x ((animate_circle mouse width height ^^ n) c))
       \<and> js_number (c_y ((animate_circle mouse width height ^^ n) c))"
proof (induction n)
  case 0
  with assms show ?case by simp
next
  case (Suc n)
  then show ?case using assms(4,5) by (simp add: animate_circle_follow follow_js_number)
qed

lemma updateCircles_body_funpow_numbers:
  assumes "g_interactive c" "js_number (g_x c)" "js_number (g_y c)"
    "js_number (fst mouse)" "js_number (snd mouse)"
  shows "g_interactive ((updateCircles_body mouse width height ^^ n) c)
       \<and> js_number (g_x ((updateCircles_body mouse width height ^^ n) c))
       \<and> js_number (g_y ((updateCircles_body mouse width height ^^ n) c))"
proof (induction n)
  case 0
  with assms show ?case by simp
next
  case (Suc n)
  then show ?case using assms(4,5) by (simp add: updateCircles_body_follow follow_js_number)
qed

lemma html_follow:
  assumes "i < length cs" "c_isInteractive (cs ! i)"
    "js_number (c_x (cs ! i))" "js_number (c_y (cs ! i))"
    "js_number (fst mouse)" "js_number (snd mouse)"
  shows "follows_axis (fst mouse) (c_x ((animate_circles mouse width height ^^ n) cs ! i))
           (c_x ((animate_circles mouse width height ^^ Suc n) cs ! i))
       \<and> follows_axis (snd mouse) (c_y ((animate_circles mouse width height ^^ n) cs ! i))
           (c_y ((animate_circles mouse width height ^^ Suc n) cs ! i))
       \<and> c_dist mouse ((animate_circles mouse width height ^^ Suc n) cs ! i)
           \<le> c_dist mouse ((animate_circles mouse width height ^^ n) cs ! i)"
proof -
  let ?f = "animate_circle mouse width height"
  let ?d = "(?f ^^ n) (cs ! i)"
  from animate_circle_funpow_numbers [OF assms(2-6), where width = width and height = height and n = n]
  have d: "c_isInteractive ?d" "fl64 (c_x ?d) = c_x ?d" "fl64 (c_y ?d) = c_y ?d"
    by (simp_all add: js_number_def)
  have m: "fl64 (fst mouse) = fst mouse" "fl64 (snd mouse) = snd mouse"
    using assms(5,6) by (simp_all add: js_number_def)
  have x: "follows_axis (fst mouse) (c_x ?d) (c_x (?f ?d))"
    unfolding animate_circle_follow [OF d(1)] by (rule follow_follows [OF d(2) m(1)])
  have y: "follows_axis (snd mouse) (c_y ?d) (c_y (?f ?d))"
    unfolding animate_circle_follow [OF d(1)] by (rule follow_follows [OF d(3) m(2)])
  have "c_dist mouse (?f ?d) \<le> c_dist mouse ?d"
    unfolding c_dist_def
    by (intro gl_length_mono follows_axis_closer x y)
  moreover have "(?f ^^ Suc n) (cs ! i) = ?f ?d" by simp
  ultimately show ?thesis
    using x y assms(1) by (simp add: animate_circles_funpow_nth del: funpow.simps)
qed

lemma gl_follow:
  assumes "j < length gs" "g_interactive (gs ! j)"
    "js_number (g_x (gs ! j))" "js_number (g_y (gs ! j))"
    "js_number (fst mouse)" "js_number (snd mouse)"
  shows "follows_axis (fst mouse) (g_x ((updateCircles mouse width height ^^ n) gs ! j))
           (g_x ((updateCircles mouse width height ^^ Suc n) gs ! j))
       \<and> follows_axis (snd mouse) (g_y ((updateCircles mouse width height ^^ n) gs ! j))
           (g_y ((updateCircles mouse width height ^^ Suc n) gs ! j))
       \<and> g_dist mouse ((updateCircles mouse width height ^^ Suc n) gs ! j)
           \<le> g_dist mouse ((updateCircles mouse width height ^^ n) gs ! j)"
proof -
  let ?f = "updateCircles_body mouse width height"
  let ?d = "(?f ^^ n) (gs ! j)"
  from updateCircles_body_funpow_numbers [OF assms(2-6), where width = width and height = height and n = n]
  have d: "g_interactive ?d" "fl64 (g_x ?d) = g_x ?d" "fl64 (g_y ?d) = g_y ?d"
    by (simp_all add: js_number_def)
  have m: "fl64 (fst mouse) = fst mouse" "fl64 (snd mouse) = snd mouse"
    using assms(5,6) by (simp_all add: js_number_def)
  have x: "follows_axis (fst mouse) (g_x ?d) (g_x (?f ?d))"
    unfolding updateCircles_body_follow [OF d(1)] by (rule follow_follows [OF d(2) m(1)])
  have y: "follows_axis (snd mouse) (g_y ?d) (g_y (?f ?d))"
    unfolding updateCircles_body_follow [OF d(1)] by (rule follow_follows [OF d(3) m(2)])
  have "g_dist mouse (?f ?d) \<le> g_dist mouse ?d"
    unfolding g_dist_def
    by (intro gl_length_mono follows_axis_closer x y)
  moreover have "(?f ^^ Suc n) (gs ! j) = ?f ?d" by simp
  ultimately show ?thesis
    using x y assms(1) by (simp add: updateCircles_funpow_nth del: funpow.simps)
qed

text \<open>
  Claim C2, amended. For the interactive blob under a fixed pointer position, blob and
  pointer coordinates being doubles (of magnitude at most \<open>2\<^sup>1\<^sup>0\<^sup>0\<^sup>0\<close>), each simulation step
  updates the position by \<^verbatim>\<open>position += (pointer - position) * 0.1\<close> in double arithmetic;
  on each axis the new coordinate lies between the old one and the pointer, and a
  coordinate that is at the pointer stays there, so the Euclidean distance from the blob
  to the pointer never increases. In both components. (A factor of exactly \<open>0.9\<close>, a
  strict decrease in every step and a fall below every \<open>\<epsilon> > 0\<close> are not part of the
  amended claim.)
\<close>

theorem interactive_convergence:
  assumes "js_number (fst mouse)" "js_number (snd mouse)"
    and "i < length cs" "c_isInteractive (cs ! i)"
        "js_number (c_x (cs ! i))" "js_number (c_y (cs ! i))"
    and "j < length gs" "g_interactive (gs ! j)"
        "js_number (g_x (gs ! j))" "js_number (g_y (gs ! j))"
  shows "follows_axis (fst mouse) (c_x ((animate_circles mouse width height ^^ n) cs ! i))
           (c_x ((animate_circles mouse width height ^^ Suc n) cs ! i))
       \<and> follows_axis (snd mouse) (c_y ((animate_circles mouse width height ^^ n) cs ! i))
           (c_y ((animate_circles mouse width height ^^ Suc n) cs ! i))
       \<and> c_dist mouse ((animate_circles mouse width height ^^ Suc n) cs ! i)
           \<le> c_dist mouse ((animate_circles mouse width height ^^ n) cs ! i)
       \<and> follows_axis (fst mouse) (g_x ((updateCircles mouse width height ^^ n) gs ! j))
           (g_x ((updateCircles mouse width height ^^ Suc n) gs ! j))
       \<and> follows_axis (snd mouse) (g_y ((updateCircles mouse width height ^^ n) gs ! j))
           (g_y ((updateCircles mouse width height ^^ Suc n) gs ! j))
       \<and> g_dist mouse ((updateCircles mouse width height ^^ Suc n) gs ! j)
           \<le> g_dist mouse ((updateCircles mouse width height ^^ n) gs ! j)"
  using html_follow [OF assms(3-6,1,2)] gl_follow [OF assms(7-10,1,2)] by blast

text \<open>The interactive blob of the sample scenes at \<open>(50, 50)\<close>, the pointer at \<open>(90, 80)\<close>.\<close>

theorem interactive_convergence_witness:
  "js_number (fst (90 :: real, 80 :: real)) \<and> js_number (snd (90 :: real, 80 :: real))
   \<and> c_isInteractive (sample_circles ! 1) \<and> g_interactive (sample_gcircles ! 1)
   \<and> js_number (c_x (sample_circles ! 1)) \<and> js_number (c_y (sample_circles ! 1))
   \<and> js_number (g_x (sample_gcircles ! 1)) \<and> js_number (g_y (sample_gcircles ! 1))
   \<and> c_x ((animate_circles (90, 80) 100 100 ^^ 0) sample_circles ! 1) \<le> 90
   \<and> c_x ((animate_circles (90, 80) 100 100 ^^ 0) sample_circles ! 1)
       \<le> c_x ((animate_circles (90, 80) 100 100 ^^ Suc 0) sample_circles ! 1)
   \<and> c_x ((animate_circles (90, 80) 100 100 ^^ Suc 0) sample_circles ! 1) \<le> 90
   \<and> c_dist (90, 80) ((animate_circles (90, 80) 100 100 ^^ Suc 0) sample_circles ! 1)
       \<le> c_dist (90, 80) ((animate_circles (90, 80) 100 100 ^^ 0) sample_circles ! 1)
   \<and> g_dist (90, 80) ((updateCircles (90, 80) 100 100 ^^ Suc 0) sample_gcircles ! 1)
       \<le> g_dist (90, 80) ((updateCircles (90, 80) 100 100 ^^ 0) sample_gcircles ! 1)"
proof -
  have m: "js_number (fst (90 :: real, 80 :: real))" "js_number (snd (90 :: real, 80 :: real))"
    by simp_all
  have h: "1 < length sample_circles" "c_isInteractive (sample_circles ! 1)"
    "js_number (c_x (sample_circles ! 1))" "js_number (c_y (sample_circles ! 1))"
    "1 < length sample_gcircles" "g_interactive (sample_gcircles ! 1)"
    "js_number (g_x (sample_gcircles ! 1))" "js_number (g_y (sample_gcircles ! 1))"
    by (simp_all add: sample_circles_def sample_gcircles_def)
  have le: "c_x ((animate_circles (90, 80) 100 100 ^^ 0) sample_circles ! 1) \<le> 90"
    by (simp add: sample_circles_def)
  from interactive_convergence [OF m h, where width = 100 and height = 100 and n = 0]
  have f: "follows_axis (fst (90 :: real, 80 :: real))
        (c_x ((animate_circles (90, 80) 100 100 ^^ 0) sample_circles ! 1))
        (c_x ((animate_circles (90, 80) 100 100 ^^ Suc 0) sample_circles ! 1))"
    and d: "c_dist (90, 80) ((animate_circles (90, 80) 100 100 ^^ Suc 0) sample_circles ! 1)
       \<le> c_dist (90, 80) ((animate_circles (90, 80) 100 100 ^^ 0) sample_circles ! 1)"
      "g_dist (90, 80) ((updateCircles (90, 80) 100 100 ^^ Suc 0) sample_gcircles ! 1)
       \<le> g_dist (90, 80) ((updateCircles (90, 80) 100 100 ^^ 0) sample_gcircles ! 1)"
    by blast+
  from f le have "c_x ((animate_circles (90, 80) 100 100 ^^ 0) sample_circles ! 1)
       \<le> c_x ((animate_circles (90, 80) 100 100 ^^ Suc 0) sample_circles ! 1)
     \<and> c_x ((animate_circles (90, 80) 100 100 ^^ Suc 0) sample_circles ! 1) \<le> 90"
    unfolding follows_axis_def by (simp del: funpow.simps)
  with m h le d show ?thesis by blast
qed

text \<open>
  Claim C2 as stated fails where the blob is at the pointer. The raster compositor
  mounted in a window of 800 by 600 has its interactive blob and its pointer both at
  \<open>(400, 300)\<close>; the next frame leaves the distance at zero.
\<close>

theorem interactive_stalls_at_pointer:
  "c_isInteractive (h_circles sample_html ! 5)
   \<and> \<not> c_dist (h_mouse sample_html)
          (h_circles (h_deliver sample_rnd (AnimationFrame False) sample_html) ! 5)
        < c_dist (h_mouse sample_html) (h_circles sample_html ! 5)"
  by (simp add: sample_html_def onMounted_def init_def animate_def animate_circles_def
      animate_circle_def h_deliver_def c_dist_def gl_length_def Let_def upt_rec
      js_add_def js_sub_def js_mul_def js_div_def)

text \<open>
  It also fails short of the pointer. With the pointer at \<open>(90, 80)\<close> and the blob at
  \<open>(90 - 2\<^sup>-\<^sup>4\<^sup>4, 80 - 2\<^sup>-\<^sup>4\<^sup>4)\<close>, the increment is \<open>0.4\<close> units in the last place of the
  coordinates and the rounded sum is the old coordinate: the step leaves the blob where it
  is, at a distance above \<open>10\<^sup>-\<^sup>1\<^sup>4\<close> that is neither multiplied by \<open>0.9\<close> nor decreased.
\<close>

lemma interactive_stalls_short_of_pointer:
  "c_isInteractive (stalled_circles ! 0)
   \<and> js_number (c_x (stalled_circles ! 0)) \<and> js_number (c_y (stalled_circles ! 0))
   \<and> c_x (animate_circles (90, 80) 100 100 stalled_circles ! 0) = c_x (stalled_circles ! 0)
   \<and> c_y (animate_circles (90, 80) 100 100 stalled_circles ! 0) = c_y (stalled_circles ! 0)
   \<and> 1 / 10 ^ 14 < c_dist (90, 80) (stalled_circles ! 0)"
proof -
  define X :: real where "X = 90 - 1 / 2 ^ 44"
  define Y :: real where "Y = 80 - 1 / 2 ^ 44"
  define T :: real where "T = 3602879701896397 / 2 ^ 99"
  define D :: real where "D = 1 / 2 ^ 44"
  have dx: "js_sub 90 X = D"
    unfolding js_sub_def X_def D_def
    by (simp, subst fl64_eval [where e = "- 44"]) (simp_all add: round_even_def Let_def)
  have dy: "js_sub 80 Y = D"
    unfolding js_sub_def Y_def D_def
    by (simp, subst fl64_eval [where e = "- 44"]) (simp_all add: round_even_def Let_def)
  have t: "js_mul D (fl64 0.1) = T"
    unfolding js_mul_def fl64_tenth T_def D_def
    by (simp, subst fl64_eval [where e = "- 48"]) (simp_all add: round_even_def Let_def)
  have ax: "js_add X T = X"
    unfolding js_add_def X_def T_def
    by (simp, subst fl64_eval [where e = 6]) (simp_all add: round_even_def Let_def)
  have ay: "js_add Y T = Y"
    unfolding js_add_def Y_def T_def
    by (simp, subst fl64_eval [where e = 6]) (simp_all add: round_even_def Let_def)
  have fx: "fl64 X = X"
    unfolding X_def by (simp, subst fl64_eval [where e = 6]) (simp_all add: round_even_def Let_def)
  have fy: "fl64 Y = Y"
    unfolding Y_def by (simp, subst fl64_eval [where e = 6]) (simp_all add: round_even_def Let_def)
  have c0: "stalled_circles ! 0 = \<lparr>c_x = X, c_y = Y, c_radius = 20,
      c_color = ''140, 100, 255'', c_velocity = (0, 0), c_isInteractive = True\<rparr>"
    by (simp add: stalled_circles_def X_def Y_def)
  have len: "length stalled_circles = 1" by (simp add: stalled_circles_def)
  have st: "animate_circles (90, 80) 100 100 stalled_circles ! 0
      = animate_circle (90, 80) 100 100 (stalled_circles ! 0)"
    using len by (simp add: animate_circles_def)
  have big: "\<bar>X\<bar> \<le> 2 ^ 1000" "\<bar>Y\<bar> \<le> 2 ^ 1000"
  proof -
    have "(2 :: real) ^ 7 \<le> 2 ^ 1000" by (intro power_increasing) simp_all
    moreover have "\<bar>X\<bar> \<le> 2 ^ 7" "\<bar>Y\<bar> \<le> 2 ^ 7" by (simp_all add: X_def Y_def)
    ultimately show "\<bar>X\<bar> \<le> 2 ^ 1000" "\<bar>Y\<bar> \<le> 2 ^ 1000" by linarith+
  qed
  have "1 / 10 ^ 14 < (1 / 2 ^ 44 :: real)" by simp
  also have "(1 / 2 ^ 44 :: real) \<le> sqrt ((1 / 2 ^ 44)\<^sup>2 + (1 / 2 ^ 44)\<^sup>2)"
    by (rule real_sqrt_sum_squares_ge1)
  also have "\<dots> = c_dist (90, 80) (stalled_circles ! 0)"
    by (simp add: c0 c_dist_def gl_length_def X_def Y_def power2_eq_square)
  finally have far: "1 / 10 ^ 14 < c_dist (90, 80) (stalled_circles ! 0)" .
  have sel: "c_isInteractive (stalled_circles ! 0)" "c_x (stalled_circles ! 0) = X"
    "c_y (stalled_circles ! 0) = Y"
    by (simp_all add: c0)
  have "c_x (animate_circle (90, 80) 100 100 (stalled_circles ! 0))
      = js_add X (js_mul (js_sub 90 X) (fl64 0.1))"
    using animate_circle_follow(1) [OF sel(1), where mouse = "(90, 80)"]
    unfolding sel fst_conv .
  then have x: "c_x (animate_circle (90, 80) 100 100 (stalled_circles ! 0)) = X"
    by (simp only: dx t ax)
  have "c_y (animate_circle (90, 80) 100 100 (stalled_circles ! 0))
      = js_add Y (js_mul (js_sub 80 Y) (fl64 0.1))"
    using animate_circle_follow(2) [OF sel(1), where mouse = "(90, 80)"]
    unfolding sel snd_conv .
  then have y: "c_y (animate_circle (90, 80) 100 100 (stalled_circles ! 0)) = Y"
    by (simp only: dy t ay)
  from far fx fy big x y sel show ?thesis unfolding st by (simp add: js_number_def)
qed

section \<open>The shader on uploaded scenes\<close>

lemma upload_slots:
  assumes "k < length cs" "length cs \<le> 6"
  shows "u_circlesPosRad (render_upload width height mouse dark cs) ! k
           = (g_x (cs ! k), g_y (cs ! k), g_radius (cs ! k))"
    and "u_circlesColor (render_upload width height mouse dark cs) ! k = g_color (cs ! k)"
proof -
  from assms have k: "k < 6" by simp
  then have "[0..<6] ! k = k" by simp
  with k assms(1) show
    "u_circlesPosRad (render_upload width height mouse dark cs) ! k
       = (g_x (cs ! k), g_y (cs ! k), g_radius (cs ! k))"
    "u_circlesColor (render_upload width height mouse dark cs) ! k = g_color (cs ! k)"
    by (simp_all add: render_upload_def del: upt_Suc)
qed

lemma upload_count [simp]:
  "u_circleCount (render_upload width height mouse dark cs) = int (length cs)"
  by (simp add: render_upload_def)

lemma field_loop_from_upload:
  assumes "length cs \<le> 6"
  shows "field_loop_from (render_upload width height mouse dark cs) st [k..<6] acc
           = blobs_field st (drop k cs) acc"
proof (induction "6 - k" arbitrary: k acc)
  case 0
  then have "[k..<6] = []" "drop k cs = []" using assms by simp_all
  then show ?case by simp
next
  case (Suc n)
  then have k: "k < 6" and n: "n = 6 - Suc k" by simp_all
  from k have up: "[k..<6] = k # [Suc k..<6]" by (simp add: upt_conv_Cons)
  show ?case
  proof (cases "k < length cs")
    case False
    then have "drop k cs = []" by simp
    with False show ?thesis unfolding up by simp
  next
    case True
    then have dr: "drop k cs = cs ! k # drop (Suc k) cs" by (simp add: Cons_nth_drop_Suc)
    note sl = upload_slots [OF True assms, of width height mouse dark]
    show ?thesis
      unfolding up dr using True Suc.hyps(1) [OF n]
      by (simp add: sl Let_def split: option.splits)
  qed
qed

lemma field_loop_upload:
  "length cs \<le> 6 \<Longrightarrow>
   field_loop (render_upload width height mouse dark cs) st = blobs_field st cs (0, (0, 0, 0))"
  using field_loop_from_upload [of cs width height mouse dark st 0] by (simp add: field_loop_def)

lemma blobs_field_None:
  "blobs_field st bs acc = None \<longleftrightarrow> (\<exists>b\<in>set bs. g_radius b = 0)"
  by (induction bs arbitrary: acc) (auto simp: gl_div_def Let_def split: option.splits if_splits)

lemma fragment_main_upload:
  assumes "length cs \<le> 6"
  shows "fragment_main (render_upload width height mouse dark cs) v_uv
           = blobs_pixel width height cs (fst v_uv * width, snd v_uv * height)"
proof -
  have res: "u_resolution (render_upload width height mouse dark cs) = (width, height)"
    by (simp add: render_upload_def)
  show ?thesis
    by (simp add: fragment_main_def fragment_main_with_def pre_mix_def res field_loop_upload [OF assms]
        blobs_pixel_def light_arm_def dark_arm_def clamp_def finalCirclesColor_def Let_def
        split: option.splits prod.splits)
qed


section \<open>Padding\<close>

lemma blobs_pixel_None:
  "blobs_pixel width height bs st = None \<longleftrightarrow> height = 0 \<or> (\<exists>b\<in>set bs. g_radius b = 0)"
proof -
  have "blobs_field st bs (0, (0, 0, 0)) = None \<longleftrightarrow> (\<exists>b\<in>set bs. g_radius b = 0)"
    by (rule blobs_field_None)
  then show ?thesis
    by (auto simp: blobs_pixel_def gl_div_def split: option.splits)
qed

text \<open>
  Claim C4. For a scene of fewer than 6 blobs, the pixel the shader computes from the
  uniforms uploaded by \<^verbatim>\<open>render\<close>, dummy slots included, is the pixel computed from the
  real blobs alone, at every sample point; and it is a defined pixel when the viewport
  height and the radii of the real blobs are not zero.
\<close>

theorem padding_neutral:
  assumes "length cs < 6"
  shows "fragment_main (render_upload width height mouse dark cs) v_uv
           = blobs_pixel width height cs (fst v_uv * width, snd v_uv * height)
       \<and> (height \<noteq> 0 \<and> (\<forall>c\<in>set cs. g_radius c \<noteq> 0) \<longrightarrow>
            fragment_main (render_upload width height mouse dark cs) v_uv \<noteq> None)"
proof -
  from assms have "length cs \<le> 6" by simp
  from fragment_main_upload [OF this] show ?thesis by (simp add: blobs_pixel_None)
qed

text \<open>The sample scene of two blobs, four dummy slots, at the centre of the viewport.\<close>

theorem padding_neutral_witness:
  "length sample_gcircles < 6
   \<and> fragment_main (render_upload 100 100 (50, 50) False sample_gcircles) (1 / 2, 1 / 2)
       = blobs_pixel 100 100 sample_gcircles (fst (1 / 2 :: real, 1 / 2 :: real) * 100, snd (1 / 2 :: real, 1 / 2 :: real) * 100)
   \<and> fragment_main (render_upload 100 100 (50, 50) False sample_gcircles) (1 / 2, 1 / 2) \<noteq> None"
proof -
  have h: "length sample_gcircles < 6" by (simp add: sample_gcircles_def)
  have nz: "(100 :: real) \<noteq> 0 \<and> (\<forall>c\<in>set sample_gcircles. g_radius c \<noteq> 0)"
    by (simp add: sample_gcircles_def)
  from h nz padding_neutral [OF h, where width = 100 and height = 100 and mouse = "(50, 50)"
      and dark = False and v_uv = "(1 / 2, 1 / 2)"] show ?thesis by blast
qed

section \<open>Scene structure through the life of the components\<close>

lemma init_scene_ok: "scene_ok (init width height rnd k)"
  by (simp add: scene_ok_def init_def colors_def Let_def upt_rec)

lemma animate_circles_scene_ok: "scene_ok cs \<Longrightarrow> scene_ok (animate_circles mouse width height cs)"
  by (simp add: scene_ok_def animate_circles_def comp_def)

lemma animate_scene_ok: "scene_ok (h_circles s) \<Longrightarrow> scene_ok (h_circles (animate dark s))"
  by (simp add: animate_def Let_def animate_circles_scene_ok)

lemma fold_animate_scene_ok:
  "scene_ok (h_circles s) \<Longrightarrow> scene_ok (h_circles (fold (\<lambda>handle. animate dark) hs s))"
  by (induction hs arbitrary: s) (simp_all add: animate_scene_ok)

lemma h_deliver_scene_ok: "scene_ok (h_circles s) \<Longrightarrow> scene_ok (h_circles (h_deliver rnd e s))"
  by (cases e)
     (simp_all add: h_deliver_def resizeCanvas_def onMouseMove_def onUnmounted_def Let_def
        init_scene_ok fold_animate_scene_ok split: option.splits)

lemma h_run_scene_ok: "scene_ok (h_circles s) \<Longrightarrow> scene_ok (h_circles (h_run rnd es s))"
  unfolding h_run_def by (induction es arbitrary: s) (simp_all add: h_deliver_scene_ok)

lemma onMounted_scene_ok: "scene_ok (h_circles (onMounted rnd innerWidth innerHeight dark))"
  by (simp add: onMounted_def Let_def animate_scene_ok init_scene_ok)

lemma initCircles_scene_ok: "gl_scene_ok (js_add width height) (initCircles width height rnd k)"
  by (simp add: gl_scene_ok_def initCircles_def circleColors_def Let_def upt_rec)

lemma updateCircles_scene_ok:
  "gl_scene_ok R cs \<Longrightarrow> gl_scene_ok R (updateCircles mouse width height cs)"
  by (simp add: gl_scene_ok_def updateCircles_def comp_def)

lemma render_program [simp]: "g_program (render dark s) = g_program s"
  by (simp add: render_def Let_def)

lemma render_inv:
  assumes "gl_scene_ok R (g_circles s)"
  shows "gl_inv R (render dark s)"
proof -
  have "g_program s \<longrightarrow> g_uniforms (render dark s)
      = render_upload (g_width s) (g_height s) (g_mouse s) dark (g_circles (render dark s))"
    by (simp add: render_def Let_def)
  then have "g_program (render dark s) \<longrightarrow> (\<exists>width height mouse dark'.
      g_uniforms (render dark s) = render_upload width height mouse dark' (g_circles (render dark s)))"
    unfolding render_program by blast
  moreover have "gl_scene_ok R (g_circles (render dark s))"
    using assms by (simp add: render_def Let_def updateCircles_scene_ok)
  ultimately show ?thesis unfolding gl_inv_def by blast
qed

lemma fold_render_inv:
  "gl_inv R s \<Longrightarrow> gl_inv R (fold (\<lambda>handle. render dark) hs s)
     \<and> g_program (fold (\<lambda>handle. render dark) hs s) = g_program s"
proof (induction hs arbitrary: s)
  case Nil
  then show ?case by simp
next
  case (Cons h hs)
  from Cons.prems have "gl_inv R (render dark s)" by (intro render_inv) (simp add: gl_inv_def)
  from Cons.IH [OF this] show ?case by simp
qed

lemma gl_deliver_inv:
  assumes "gl_inv R s"
  shows "gl_inv R (gl_deliver e s) \<and> g_program (gl_deliver e s) = g_program s"
proof (cases e)
  case (AnimationFrame dark)
  from assms have "gl_inv R (s\<lparr>g_pending := []\<rparr>)" by (simp add: gl_inv_def)
  from fold_render_inv [OF this] show ?thesis by (simp add: gl_deliver_def AnimationFrame)
qed (use assms in \<open>simp_all add: gl_deliver_def gl_inv_def gl_resizeCanvas_def gl_onMouseMove_def
       gl_onUnmounted_def Let_def\<close>)

lemma gl_run_None: "gl_run es None = None"
  unfolding gl_run_def by (induction es) simp_all

lemma gl_run_inv:
  "gl_inv R s \<Longrightarrow>
   \<exists>s'. gl_run es (Some s) = Some s' \<and> gl_inv R s' \<and> g_program s' = g_program s"
  unfolding gl_run_def
proof (induction es arbitrary: s)
  case Nil
  then show ?case by simp
next
  case (Cons e es)
  from gl_deliver_inv [OF Cons.prems]
  have d: "gl_inv R (gl_deliver e s)" "g_program (gl_deliver e s) = g_program s" by simp_all
  from Cons.IH [OF d(1)] d(2) show ?case by simp
qed

lemma gl_closure_fields [simp]:
  "g_circles (gl_closure rnd innerWidth innerHeight) = initCircles innerWidth innerHeight rnd 0"
  "g_program (gl_closure rnd innerWidth innerHeight) = False"
  by (simp_all add: gl_closure_def Let_def)

lemma gl_onMounted_inv:
  assumes "has_webgl env"
  shows "\<exists>s. snd (gl_onMounted env rnd innerWidth innerHeight dark) = Some s
             \<and> gl_inv (js_add innerWidth innerHeight) s \<and> (shaders_ok env \<longrightarrow> g_program s)"
proof (cases "vertex_log env \<noteq> None \<or> fragment_log env \<noteq> None")
  case True
  have "gl_inv (js_add innerWidth innerHeight) (gl_closure rnd innerWidth innerHeight)"
    by (simp add: gl_inv_def initCircles_scene_ok)
  with True assms show ?thesis
    by (auto simp: gl_onMounted_def Let_def shaders_ok_def)
next
  case False
  let ?s0 = "gl_closure rnd innerWidth innerHeight"
  let ?s1 = "?s0\<lparr>g_program := (link_log env = None)\<rparr>"
  let ?s2 = "if g_program ?s1
             then ?s1\<lparr>g_uniforms := (g_uniforms ?s1)\<lparr>u_resolution := (g_width ?s1, g_height ?s1)\<rparr>\<rparr>
             else ?s1"
  have c: "g_circles ?s2 = initCircles innerWidth innerHeight rnd 0"
    and p: "g_program ?s2 = (link_log env = None)"
    by simp_all
  have "gl_inv (js_add innerWidth innerHeight) (render dark ?s2)"
    by (intro render_inv) (simp only: c initCircles_scene_ok)
  then have "gl_inv (js_add innerWidth innerHeight) ((render dark ?s2)\<lparr>g_unmount_hook := True\<rparr>)"
    by (simp add: gl_inv_def)
  moreover have "g_program ((render dark ?s2)\<lparr>g_unmount_hook := True\<rparr>) = (link_log env = None)"
    using p by simp
  moreover have "snd (gl_onMounted env rnd innerWidth innerHeight dark)
      = Some ((render dark ?s2)\<lparr>g_unmount_hook := True\<rparr>)"
    using False assms by (simp add: gl_onMounted_def Let_def)
  ultimately show ?thesis by (simp add: shaders_ok_def)
qed

lemma gl_running:
  assumes "has_webgl env"
  shows "\<exists>s. gl_run es (snd (gl_onMounted env rnd innerWidth innerHeight dark)) = Some s
             \<and> gl_inv (js_add innerWidth innerHeight) s \<and> (shaders_ok env \<longrightarrow> g_program s)"
proof -
  from gl_onMounted_inv [OF assms, where rnd = rnd and innerWidth = innerWidth
      and innerHeight = innerHeight and dark = dark] obtain s0 where
    s0: "snd (gl_onMounted env rnd innerWidth innerHeight dark) = Some s0"
    "gl_inv (js_add innerWidth innerHeight) s0" "shaders_ok env \<longrightarrow> g_program s0" by blast
  from gl_run_inv [OF s0(2), of es] s0(1,3) show ?thesis by auto
qed

lemma gl_scene_ok_length: "gl_scene_ok R cs \<Longrightarrow> length cs = 6"
proof -
  assume "gl_scene_ok R cs"
  then have "length (map g_interactive cs) = 6" by (simp add: gl_scene_ok_def)
  then show ?thesis by simp
qed

lemma gl_scene_ok_radius:
  assumes "gl_scene_ok R cs" "c \<in> set cs"
  shows "g_radius c = js_mul R (fl64 0.2) \<or> g_radius c = js_mul R (fl64 0.1)"
proof -
  from assms(2) have "g_radius c \<in> set (map g_radius cs)" by simp
  with assms(1) show ?thesis by (auto simp: gl_scene_ok_def)
qed

lemma scene_ok_length: "scene_ok cs \<Longrightarrow> length cs = 6"
proof -
  assume "scene_ok cs"
  then have "length (map c_isInteractive cs) = 6" by (simp add: scene_ok_def)
  then show ?thesis by simp
qed

text \<open>
  Claim C8. Scene creation yields 5 non-interactive blobs followed by 1 interactive blob,
  with the palette colours in positional order, whatever the random draws; and after
  mounting and any sequence of events (frames, resizes, mouse moves, unmounting) the
  scene still has 6 blobs with these flags and colours, in both components.
\<close>

theorem scene_structure:
  "map c_isInteractive (init width height rnd k) = [False, False, False, False, False, True]
   \<and> map c_color (init width height rnd k) = colors
   \<and> map g_interactive (initCircles width height rnd k) = [False, False, False, False, False, True]
   \<and> map g_color (initCircles width height rnd k) = circleColors
   \<and> length (h_circles (h_run rnd es (onMounted rnd innerWidth innerHeight dark))) = 6
   \<and> map c_isInteractive (h_circles (h_run rnd es (onMounted rnd innerWidth innerHeight dark)))
       = [False, False, False, False, False, True]
   \<and> map c_color (h_circles (h_run rnd es (onMounted rnd innerWidth innerHeight dark))) = colors
   \<and> (has_webgl env \<longrightarrow>
        (\<exists>s. gl_run es (snd (gl_onMounted env rnd innerWidth innerHeight dark)) = Some s
           \<and> length (g_circles s) = 6
           \<and> map g_interactive (g_circles s) = [False, False, False, False, False, True]
           \<and> map g_color (g_circles s) = circleColors))"
proof -
  have i: "scene_ok (init width height rnd k)" by (rule init_scene_ok)
  have g: "gl_scene_ok (js_add width height) (initCircles width height rnd k)"
    by (rule initCircles_scene_ok)
  have h: "scene_ok (h_circles (h_run rnd es (onMounted rnd innerWidth innerHeight dark)))"
    by (intro h_run_scene_ok onMounted_scene_ok)
  have r: "has_webgl env \<longrightarrow>
        (\<exists>s. gl_run es (snd (gl_onMounted env rnd innerWidth innerHeight dark)) = Some s
           \<and> length (g_circles s) = 6
           \<and> map g_interactive (g_circles s) = [False, False, False, False, False, True]
           \<and> map g_color (g_circles s) = circleColors)"
  proof
    assume "has_webgl env"
    from gl_running [OF this, where es = es and rnd = rnd and innerWidth = innerWidth
        and innerHeight = innerHeight and dark = dark] obtain s where
      s: "gl_run es (snd (gl_onMounted env rnd innerWidth innerHeight dark)) = Some s"
      "gl_scene_ok (js_add innerWidth innerHeight) (g_circles s)" unfolding gl_inv_def by blast
    from s(2) gl_scene_ok_length [OF s(2)] s(1)
    show "\<exists>s. gl_run es (snd (gl_onMounted env rnd innerWidth innerHeight dark)) = Some s
           \<and> length (g_circles s) = 6
           \<and> map g_interactive (g_circles s) = [False, False, False, False, False, True]
           \<and> map g_color (g_circles s) = circleColors"
      by (simp add: gl_scene_ok_def)
  qed
  from i g h scene_ok_length [OF h] r show ?thesis
    unfolding scene_ok_def gl_scene_ok_def by blast
qed

text \<open>Both components mounted at 800 by 600, after a frame, a resize and another frame.\<close>

theorem scene_structure_witness:
  "has_webgl sample_env
   \<and> map c_color (h_circles (h_run sample_rnd [AnimationFrame True, Resize 640 480, AnimationFrame False]
        (onMounted sample_rnd 800 600 False))) = colors
   \<and> (\<exists>s. gl_run [AnimationFrame True, Resize 640 480, AnimationFrame False]
             (snd (gl_onMounted sample_env sample_rnd 800 600 False)) = Some s
           \<and> length (g_circles s) = 6
           \<and> map g_interactive (g_circles s) = [False, False, False, False, False, True]
           \<and> map g_color (g_circles s) = circleColors)"
proof -
  have h: "has_webgl sample_env" by (simp add: sample_env_def)
  from h scene_structure [where env = sample_env and rnd = sample_rnd and innerWidth = 800
      and innerHeight = 600 and dark = False
      and es = "[AnimationFrame True, Resize 640 480, AnimationFrame False]"]
  show ?thesis by blast
qed

section \<open>Unsupported backend\<close>

text \<open>
  Claim C9. When \<^verbatim>\<open>getContext("webgl")\<close> returns no context, mounting the field renderer
  writes the single diagnostic and creates no component state: no scene, no listener, no
  pending frame request, and no later event changes that.
\<close>

theorem unsupported_backend:
  assumes "\<not> has_webgl env"
  shows "gl_onMounted env rnd innerWidth innerHeight dark = ([''WebGL not supported''], None)
       \<and> gl_run es (snd (gl_onMounted env rnd innerWidth innerHeight dark)) = None
       \<and> gl_scene_positions (gl_run es (snd (gl_onMounted env rnd innerWidth innerHeight dark))) = []
       \<and> gl_listeners (gl_run es (snd (gl_onMounted env rnd innerWidth innerHeight dark))) = (False, False)
       \<and> gl_pending_frames (gl_run es (snd (gl_onMounted env rnd innerWidth innerHeight dark))) = []"
  using assms
  by (simp add: gl_onMounted_def gl_run_None gl_scene_positions_def gl_listeners_def
      gl_pending_frames_def)

text \<open>A host without the backend.\<close>

theorem unsupported_backend_witness:
  "\<not> has_webgl sample_env_no_webgl
   \<and> gl_onMounted sample_env_no_webgl sample_rnd 800 600 False = ([''WebGL not supported''], None)
   \<and> gl_run [AnimationFrame False, MouseMove 10 10]
        (snd (gl_onMounted sample_env_no_webgl sample_rnd 800 600 False)) = None"
proof -
  have h: "\<not> has_webgl sample_env_no_webgl" by (simp add: sample_env_no_webgl_def)
  from h unsupported_backend [OF h, where rnd = sample_rnd and innerWidth = 800
      and innerHeight = 600 and dark = False and es = "[AnimationFrame False, MouseMove 10 10]"]
  show ?thesis by blast
qed

section \<open>The gaussian's divisor\<close>

lemma window_sizes_sum:
  assumes "window_size w" "window_size h" "0 < w + h"
  shows "1 \<le> js_add w h"
proof -
  from assms(1,2) obtain n m :: nat where nm: "w = of_nat n" "h = of_nat m"
    unfolding window_size_def Nats_def by blast
  with assms(3) have "0 < real (n + m)" by simp
  then have "1 \<le> n + m" by linarith
  then have "1 \<le> real (n + m)" by (simp only: of_nat_1 [symmetric, where 'a = real] of_nat_le_iff)
  then have "1 \<le> w + h" by (simp add: nm)
  from fl64_mono [OF this] show ?thesis by (simp add: js_add_def)
qed

lemma radius_positive:
  assumes "1 \<le> R" "0 < fl64 c"
  shows "0 < js_mul R (fl64 c)"
proof -
  have "fl64 c \<le> R * fl64 c" using assms by (simp add: mult_le_cancel_right1)
  from fl64_mono [OF this] have "fl64 c \<le> fl64 (R * fl64 c)" by simp
  with assms(2) show ?thesis by (simp add: js_mul_def)
qed

text \<open>
  Claim C10. In every state of a field renderer mounted in a window of \<open>width + height > 0\<close>
  pixels, every circle has radius \<^verbatim>\<open>(width + height) * 0.2\<close> or \<^verbatim>\<open>(width + height) * 0.1\<close>, as
  the program computes them, which is positive; whenever a linked program is in use, as
  it is when both shaders compile and the program links, the uploaded \<^verbatim>\<open>u_circleCount\<close> is
  the number of circles and the field loop never divides by zero at any sample point. In
  general, on the uniforms uploaded for a scene of at most 6 circles the loop divides by
  zero exactly when a real circle has radius zero: the dummy slots are never reached.
\<close>

theorem sigma_never_zero:
  assumes "has_webgl env" "window_size innerWidth" "window_size innerHeight"
    "0 < innerWidth + innerHeight"
  shows "(\<exists>s. gl_run es (snd (gl_onMounted env rnd innerWidth innerHeight dark)) = Some s
            \<and> (\<forall>c\<in>set (g_circles s).
                  (g_radius c = js_mul (js_add innerWidth innerHeight) (fl64 0.2)
                   \<or> g_radius c = js_mul (js_add innerWidth innerHeight) (fl64 0.1))
                  \<and> 0 < g_radius c)
            \<and> (shaders_ok env \<longrightarrow> g_program s)
            \<and> (g_program s \<longrightarrow>
                  u_circleCount (g_uniforms s) = int (length (g_circles s))
                  \<and> (\<forall>st. field_loop (g_uniforms s) st \<noteq> None)))
       \<and> (length cs \<le> 6 \<longrightarrow>
            (field_loop (render_upload width height mouse dark' cs) st' = None
               \<longleftrightarrow> (\<exists>c\<in>set cs. g_radius c = 0)))"
proof -
  let ?R = "js_add innerWidth innerHeight"
  have R: "1 \<le> ?R" by (rule window_sizes_sum [OF assms(2,3,4)])
  have c: "0 < fl64 0.2" "0 < fl64 0.1" by (simp_all only: fl64_fifth fl64_tenth) simp_all
  have pos: "0 < js_mul ?R (fl64 0.2)" "0 < js_mul ?R (fl64 0.1)"
    by (rule radius_positive [OF R c(1)], rule radius_positive [OF R c(2)])
  from gl_running [OF assms(1), where es = es and rnd = rnd and innerWidth = innerWidth
        and innerHeight = innerHeight and dark = dark] obtain s where
    s: "gl_run es (snd (gl_onMounted env rnd innerWidth innerHeight dark)) = Some s"
    and ok: "gl_scene_ok ?R (g_circles s)"
    and up: "g_program s \<longrightarrow> (\<exists>width height mouse dark.
               g_uniforms s = render_upload width height mouse dark (g_circles s))"
    and pr: "shaders_ok env \<longrightarrow> g_program s"
    unfolding gl_inv_def by blast
  have len: "length (g_circles s) \<le> 6" using gl_scene_ok_length [OF ok] by simp
  have rad: "\<forall>c\<in>set (g_circles s).
      (g_radius c = js_mul ?R (fl64 0.2) \<or> g_radius c = js_mul ?R (fl64 0.1)) \<and> 0 < g_radius c"
  proof
    fix c assume "c \<in> set (g_circles s)"
    from gl_scene_ok_radius [OF ok this] pos
    show "(g_radius c = js_mul ?R (fl64 0.2) \<or> g_radius c = js_mul ?R (fl64 0.1))
        \<and> 0 < g_radius c" by auto
  qed
  have run: "g_program s \<longrightarrow> u_circleCount (g_uniforms s) = int (length (g_circles s))
      \<and> (\<forall>st. field_loop (g_uniforms s) st \<noteq> None)"
  proof
    assume "g_program s"
    with up obtain w h m d where u: "g_uniforms s = render_upload w h m d (g_circles s)" by blast
    have "\<forall>st. field_loop (g_uniforms s) st \<noteq> None"
    proof
      fix st
      have "field_loop (g_uniforms s) st = blobs_field st (g_circles s) (0, (0, 0, 0))"
        unfolding u by (rule field_loop_upload [OF len])
      moreover have "\<not> (\<exists>b\<in>set (g_circles s). g_radius b = 0)" using rad by auto
      ultimately show "field_loop (g_uniforms s) st \<noteq> None" by (simp add: blobs_field_None)
    qed
    moreover have "u_circleCount (g_uniforms s) = int (length (g_circles s))"
      unfolding u by simp
    ultimately show "u_circleCount (g_uniforms s) = int (length (g_circles s))
      \<and> (\<forall>st. field_loop (g_uniforms s) st \<noteq> None)" by blast
  qed
  have "length cs \<le> 6 \<longrightarrow>
            (field_loop (render_upload width height mouse dark' cs) st' = None
               \<longleftrightarrow> (\<exists>c\<in>set cs. g_radius c = 0))"
    by (simp add: field_loop_upload blobs_field_None)
  with s rad pr run show ?thesis by blast
qed

text \<open>The field renderer mounted at 800 by 600 on a host where everything compiles,
  after a frame, a resize to an empty window and another frame.\<close>

theorem sigma_never_zero_witness:
  "has_webgl sample_env \<and> window_size 800 \<and> window_size 600 \<and> (0 :: real) < 800 + 600
   \<and> (\<exists>s. gl_run [AnimationFrame False, Resize 0 0, AnimationFrame True]
             (snd (gl_onMounted sample_env sample_rnd 800 600 False)) = Some s
           \<and> g_program s
           \<and> u_circleCount (g_uniforms s) = int (length (g_circles s))
           \<and> (\<forall>st. field_loop (g_uniforms s) st \<noteq> None))"
proof -
  have h: "has_webgl sample_env" "window_size 800" "window_size 600" "(0 :: real) < 800 + 600"
    by (simp_all add: sample_env_def window_size_def)
  have ok: "shaders_ok sample_env" by (simp add: sample_env_def shaders_ok_def)
  from sigma_never_zero [OF h, where rnd = sample_rnd and dark = False
      and es = "[AnimationFrame False, Resize 0 0, AnimationFrame True]"] ok
  obtain s where "gl_run [AnimationFrame False, Resize 0 0, AnimationFrame True]
             (snd (gl_onMounted sample_env sample_rnd 800 600 False)) = Some s"
    "g_program s"
    "u_circleCount (g_uniforms s) = int (length (g_circles s))"
    "\<forall>st. field_loop (g_uniforms s) st \<noteq> None"
    by blast
  with h show ?thesis by blast
qed

section \<open>Teardown\<close>

lemma animate_pending:
  "h_pending (animate dark s) = h_pending s @ [h_next_handle s]"
  "h_animationFrameId (animate dark s) = Some (h_next_handle s)"
  "h_unmount_hook (animate dark s) = h_unmount_hook s"
  "h_resize (animate dark s) = h_resize s"
  "h_mousemove (animate dark s) = h_mousemove s"
  by (simp_all add: animate_def Let_def)

lemma onMounted_inv: "h_inv (onMounted rnd innerWidth innerHeight dark)"
  by (simp add: h_inv_def onMounted_def Let_def animate_pending)

lemma h_deliver_inv:
  assumes "h_inv s"
  shows "h_inv (h_deliver rnd e s)"
proof (cases e)
  case (Resize w h)
  with assms show ?thesis
    by (auto simp: h_deliver_def h_inv_def h_disposed_def resizeCanvas_def Let_def)
next
  case (MouseMove x y)
  with assms show ?thesis
    by (auto simp: h_deliver_def h_inv_def h_disposed_def onMouseMove_def)
next
  case (AnimationFrame dark)
  show ?thesis
  proof (cases "h_pending s")
    case Nil
    with assms AnimationFrame show ?thesis by (simp add: h_deliver_def h_inv_def h_disposed_def)
  next
    case (Cons a as)
    with assms have as: "as = []" and hook: "h_unmount_hook s"
      by (auto simp: h_inv_def h_disposed_def)
    with Cons AnimationFrame show ?thesis
      by (simp add: h_deliver_def h_inv_def animate_pending)
  qed
next
  case Unmount
  with assms show ?thesis
    by (auto simp: h_deliver_def h_inv_def h_disposed_def onUnmounted_def Let_def
        split: option.splits)
qed

lemma h_run_inv: "h_inv s \<Longrightarrow> h_inv (h_run rnd es s)"
  unfolding h_run_def by (induction es arbitrary: s) (simp_all add: h_deliver_inv)

lemma h_unmount_disposes: "h_inv s \<Longrightarrow> h_disposed (h_deliver rnd Unmount s)"
  by (auto simp: h_deliver_def h_inv_def h_disposed_def onUnmounted_def Let_def
      split: option.splits)

lemma h_disposed_deliver: "h_disposed s \<Longrightarrow> h_deliver rnd e s = s"
  by (cases e) (simp_all add: h_deliver_def h_disposed_def)

lemma h_disposed_run: "h_disposed s \<Longrightarrow> h_run rnd es s = s"
  unfolding h_run_def by (induction es) (simp_all add: h_disposed_deliver)

text \<open>The raster compositor after teardown: no later event changes any part of its state.\<close>

lemma raster_compositor_teardown:
  "h_run rnd es' (h_deliver rnd Unmount (h_run rnd es (onMounted rnd innerWidth innerHeight dark)))
     = h_deliver rnd Unmount (h_run rnd es (onMounted rnd innerWidth innerHeight dark))"
  by (intro h_disposed_run h_unmount_disposes h_run_inv onMounted_inv)

text \<open>
  Claim C5 asks that after teardown both listeners are detached and the scheduled frame
  callback is cancelled, so that the scene and the viewport are never mutated again, in
  both components. The raster compositor does so (above). The field renderer, mounted
  in a window of 800 by 600 with all draws \<open>3/4\<close>, detaches its two listeners on teardown
  but leaves frame request 1 pending, and the next tick of the frame clock moves the five
  ambient blobs from \<open>(601, 451)\<close> to \<open>(602, 452)\<close>.
\<close>

theorem field_renderer_runs_after_teardown:
  "gl_listeners (gl_run [Unmount] sample_gl) = (False, False)
   \<and> gl_pending_frames (gl_run [Unmount] sample_gl) = [1]
   \<and> gl_scene_positions (gl_run [Unmount] sample_gl)
       = [(601, 451), (601, 451), (601, 451), (601, 451), (601, 451), (400, 300)]
   \<and> gl_scene_positions (gl_run [Unmount, AnimationFrame False] sample_gl)
       = [(602, 452), (602, 452), (602, 452), (602, 452), (602, 452), (400, 300)]"
proof -
  define C0 where "C0 = initCircles 800 600 sample_rnd 0"
  define C1 where "C1 = updateCircles (400, 300) 800 600 C0"
  define C2 where "C2 = updateCircles (400, 300) 800 600 C1"
  have amb: "updateCircles_body (400, 300) 800 600
      \<lparr>g_x = 600, g_y = 450, g_radius = 280, g_color = col, g_vx = 1, g_vy = 1,
       g_interactive = False\<rparr>
    = \<lparr>g_x = 601, g_y = 451, g_radius = 280, g_color = col, g_vx = 1, g_vy = 1,
       g_interactive = False\<rparr>" for col
    by (simp add: updateCircles_body_def Let_def js_add_def js_sub_def)
  have amb': "updateCircles_body (400, 300) 800 600
      \<lparr>g_x = 601, g_y = 451, g_radius = 280, g_color = col, g_vx = 1, g_vy = 1,
       g_interactive = False\<rparr>
    = \<lparr>g_x = 602, g_y = 452, g_radius = 280, g_color = col, g_vx = 1, g_vy = 1,
       g_interactive = False\<rparr>" for col
    by (simp add: updateCircles_body_def Let_def js_add_def js_sub_def)
  have int: "updateCircles_body (400, 300) 800 600
      \<lparr>g_x = 400, g_y = 300, g_radius = 140, g_color = col, g_vx = 0, g_vy = 0,
       g_interactive = True\<rparr>
    = \<lparr>g_x = 400, g_y = 300, g_radius = 140, g_color = col, g_vx = 0, g_vy = 0,
       g_interactive = True\<rparr>" for col
    by (simp add: updateCircles_body_def Let_def js_add_def js_sub_def js_mul_def)
  have r: "js_mul (js_add 800 600) (fl64 0.2) = 280" "js_mul (js_add 800 600) (fl64 0.1) = 140"
    unfolding js_mul_def js_add_def fl64_fifth fl64_tenth
    by (simp, subst fl64_eval [where e = 8], simp_all add: round_even_def Let_def,
        subst fl64_eval [where e = 7], simp_all add: round_even_def Let_def)
  have c0: "C0 = map (\<lambda>col. \<lparr>g_x = 600, g_y = 450, g_radius = 280, g_color = col, g_vx = 1,
        g_vy = 1, g_interactive = False\<rparr>) (take 5 circleColors)
      @ [\<lparr>g_x = 400, g_y = 300, g_radius = 140, g_color = circleColors ! 5, g_vx = 0, g_vy = 0,
        g_interactive = True\<rparr>]"
    unfolding C0_def initCircles_def Let_def r
    by (simp add: sample_rnd_def circleColors_def upt_rec js_add_def js_sub_def js_mul_def
        js_div_def)
  have c1: "C1 = map (\<lambda>col. \<lparr>g_x = 601, g_y = 451, g_radius = 280, g_color = col, g_vx = 1,
        g_vy = 1, g_interactive = False\<rparr>) (take 5 circleColors)
      @ [\<lparr>g_x = 400, g_y = 300, g_radius = 140, g_color = circleColors ! 5, g_vx = 0, g_vy = 0,
        g_interactive = True\<rparr>]"
    by (simp add: C1_def c0 updateCircles_def amb int comp_def)
  have c2: "C2 = map (\<lambda>col. \<lparr>g_x = 602, g_y = 452, g_radius = 280, g_color = col, g_vx = 1,
        g_vy = 1, g_interactive = False\<rparr>) (take 5 circleColors)
      @ [\<lparr>g_x = 400, g_y = 300, g_radius = 140, g_color = circleColors ! 5, g_vx = 0, g_vy = 0,
        g_interactive = True\<rparr>]"
    by (simp add: C2_def c1 updateCircles_def amb' int comp_def)
  have p1: "map (\<lambda>b. (g_x b, g_y b)) C1
      = [(601, 451), (601, 451), (601, 451), (601, 451), (601, 451), (400, 300)]"
    by (simp add: c1 circleColors_def comp_def)
  have p2: "map (\<lambda>b. (g_x b, g_y b)) C2
      = [(602, 452), (602, 452), (602, 452), (602, 452), (602, 452), (400, 300)]"
    by (simp add: c2 circleColors_def comp_def)
  obtain s where s: "sample_gl = Some s" and f: "g_circles s = C1" "g_pending s = [1]"
    "g_unmount_hook s" "g_mouse s = (400, 300)" "g_width s = 800" "g_height s = 600"
    by (simp add: sample_gl_def sample_env_def gl_onMounted_def gl_closure_def render_def
        createShader_console_def Let_def C1_def C0_def js_div_def)
  let ?u = "gl_deliver Unmount s"
  have u: "g_resize ?u = False" "g_mousemove ?u = False" "g_pending ?u = [1]" "g_circles ?u = C1"
    "g_mouse ?u = (400, 300)" "g_width ?u = 800" "g_height ?u = 600"
    using f by (simp_all add: gl_deliver_def gl_onUnmounted_def Let_def)
  have a: "g_circles (gl_deliver (AnimationFrame False) ?u) = C2"
    using u by (simp add: gl_deliver_def render_def Let_def C2_def)
  have "gl_run [Unmount] sample_gl = Some ?u"
    "gl_run [Unmount, AnimationFrame False] sample_gl = Some (gl_deliver (AnimationFrame False) ?u)"
    by (simp_all add: gl_run_def s)
  with u a p1 p2 show ?thesis
    by (simp add: gl_listeners_def gl_pending_frames_def gl_scene_positions_def)
qed

section \<open>Theme\<close>

lemma field_loop_from_darkMode:
  "field_loop_from (u\<lparr>u_darkMode := b\<rparr>) st is acc = field_loop_from u st is acc"
  by (induction "is" arbitrary: acc) (simp_all add: Let_def split: option.splits)

lemma field_loop_darkMode: "field_loop (u\<lparr>u_darkMode := b\<rparr>) st = field_loop u st"
  by (simp add: field_loop_def field_loop_from_darkMode)

lemma pre_mix_darkMode_update: "pre_mix (u\<lparr>u_darkMode := b\<rparr>) v_uv = pre_mix u v_uv"
  by (simp add: pre_mix_def field_loop_darkMode Let_def cong: option.case_cong)

lemma render_upload_darkMode:
  "render_upload width height mouse dark cs
     = (render_upload width height mouse False cs)\<lparr>u_darkMode := dark\<rparr>"
  by (simp add: render_upload_def)

lemma pre_mix_darkMode:
  "pre_mix (render_upload width height mouse True cs) v_uv
     = pre_mix (render_upload width height mouse False cs) v_uv"
  by (subst render_upload_darkMode) (rule pre_mix_darkMode_update)



text \<open>
  Claim C7. The dark arm of the shader computes the same value as the light arm,
  \<open>mix(bgColor, finalCirclesColor, clamp(intensity, 0, 1))\<close>, on all inputs, and so the
  pixel does not depend on \<^verbatim>\<open>u_darkMode\<close>.
\<close>

theorem theme_arms_equal:
  "dark_arm bgColor circlesColor intensity = light_arm bgColor circlesColor intensity
   \<and> light_arm bgColor circlesColor intensity = mix bgColor circlesColor (clamp intensity 0 1)
   \<and> fragment_main (render_upload width height mouse True cs) v_uv
       = fragment_main (render_upload width height mouse False cs) v_uv
   \<and> fragment_main (u\<lparr>u_darkMode := True\<rparr>) v_uv = fragment_main (u\<lparr>u_darkMode := False\<rparr>) v_uv"
proof -
  have arms: "dark_arm = light_arm"
    by (intro ext) (simp add: dark_arm_def light_arm_def)
  have pm: "pre_mix (u\<lparr>u_darkMode := True\<rparr>) v_uv = pre_mix (u\<lparr>u_darkMode := False\<rparr>) v_uv"
    by (simp add: pre_mix_darkMode_update)
  have 1: "fragment_main (u\<lparr>u_darkMode := True\<rparr>) v_uv = fragment_main (u\<lparr>u_darkMode := False\<rparr>) v_uv"
    by (simp add: fragment_main_def fragment_main_with_def pm arms split: option.splits)
  have 2: "fragment_main (render_upload width height mouse True cs) v_uv
       = fragment_main (render_upload width height mouse False cs) v_uv"
    by (simp add: fragment_main_def fragment_main_with_def pre_mix_darkMode arms split: option.splits)
  have 3: "light_arm bgColor circlesColor intensity = mix bgColor circlesColor (clamp intensity 0 1)"
    by (simp add: light_arm_def)
  from arms 1 2 3 show ?thesis by simp
qed

text \<open>The sample scene at the centre of the viewport under both themes.\<close>

theorem theme_arms_equal_witness:
  "dark_arm topColor (1, 0, 0) (1 / 2) = light_arm topColor (1, 0, 0) (1 / 2)
   \<and> fragment_main (render_upload 100 100 (50, 50) True sample_gcircles) (1 / 2, 1 / 2)
       = fragment_main (render_upload 100 100 (50, 50) False sample_gcircles) (1 / 2, 1 / 2)"
  using theme_arms_equal [where bgColor = topColor and circlesColor = "(1, 0, 0)" and intensity = "1 / 2"
      and width = 100 and height = 100 and mouse = "(50, 50)" and cs = sample_gcircles
      and v_uv = "(1 / 2, 1 / 2)"]
  by blast

end
